theory Spec2Isabelle
  imports Main
begin

section \<open>Firecracker microVM runner: data model\<close>

text \<open>
  Shallow embedding of \<^verbatim>\<open>src/firecracker-runner.ts\<close>. JavaScript numbers that
  hold VM ids are modelled as \<open>nat\<close> (the counter starts at 1 and is only ever
  incremented). Exceptions are values of type \<open>error\<close>; a function that can throw
  returns \<open>error + 'a\<close>, paired with the state it leaves behind.
\<close>

subsection \<open>Decimal rendering of numbers in template literals\<close>

definition digit_char :: "nat \<Rightarrow> char" where
  "digit_char d = char_of (48 + d)"

function show_nat :: "nat \<Rightarrow> string" where
  "show_nat n = (if n < 10 then [digit_char n] else show_nat (n div 10) @ [digit_char (n mod 10)])"
  by pat_completeness auto
termination
  by (relation "measure (\<lambda>n. n)") auto

declare show_nat.simps [simp del]

subsection \<open>Types of the source\<close>

text \<open>The address \<^verbatim>\<open>`172.16.0.${vmId + 1}`\<close> is kept as its four octets;
  \<open>ip_string\<close> renders the dotted-decimal text the source builds.\<close>

datatype ipv4 = IPv4 nat nat nat nat

fun ip_string :: "ipv4 \<Rightarrow> string" where
  "ip_string (IPv4 a b c d) =
     show_nat a @ ''.'' @ show_nat b @ ''.'' @ show_nat c @ ''.'' @ show_nat d"

definition BRIDGE_IP :: ipv4 where
  "BRIDGE_IP = IPv4 172 16 0 1"

definition SUBNET_MASK :: ipv4 where
  "SUBNET_MASK = IPv4 255 255 255 0"

record Mount =
  hostPath :: string
  guestPath :: string
  readOnly :: bool

record TaskResult =
  output_text :: string
  filesChanged :: "string list"
  exitCode :: int
  durationMs :: nat

text \<open>The \<^verbatim>\<open>ChildProcess\<close> handle: the pid of the spawned hypervisor and
  the \<^verbatim>\<open>killed\<close> flag Node sets once a signal has been delivered.\<close>

record ChildProcess =
  pid :: nat
  killed :: bool

record MicroVM =
  vmId :: nat
  groupId :: string
  ip :: ipv4
  tapDevice :: string
  rootfsPath :: string
  socketPath :: string
  process :: ChildProcess
  startedAt :: nat

text \<open>Every \<^verbatim>\<open>throw new Error(msg)\<close> of the source, and the errors that
  \<^verbatim>\<open>execSync\<close> and \<^verbatim>\<open>fs\<close> raise (\<open>ExecError\<close>, with the
  message the runtime gave).\<close>

datatype error =
    MaxVmCount
  | TapCreateFailed string string
  | SocketTimeout string
  | SshUnavailable ipv4
  | TaskTimedOut nat
  | ExecError string

definition SSH_BOOT_TIMEOUT_MS :: nat where
  "SSH_BOOT_TIMEOUT_MS = 30000"

fun message :: "error \<Rightarrow> string" where
  "message MaxVmCount = ''[FC] Maximum VM count exceeded (253 concurrent VMs)''"
| "message (TapCreateFailed tap err) =
     ''[FC] Failed to create TAP device '' @ tap @ '': '' @ err"
| "message (SocketTimeout p) = ''[FC] Firecracker socket did not appear at '' @ p"
| "message (SshUnavailable a) =
     ''[FC] SSH did not become available at '' @ ip_string a @ '' within ''
       @ show_nat SSH_BOOT_TIMEOUT_MS @ ''ms''"
| "message (TaskTimedOut t) = ''[FC] Task timed out after '' @ show_nat t @ ''ms''"
| "message (ExecError m) = m"

subsection \<open>Module state and the allocator\<close>

text \<open>The two module-level variables \<^verbatim>\<open>nextVmId\<close> and
  \<^verbatim>\<open>activeVMs\<close>.\<close>

record module_state =
  nextVmId :: nat
  activeVMs :: "string \<rightharpoonup> MicroVM"

definition initial_state :: module_state where
  "initial_state = \<lparr> nextVmId = 1, activeVMs = Map.empty \<rparr>"

text \<open>\<^verbatim>\<open>allocateVm\<close>: the post-increment happens before the capacity test, so
  the counter moves on the failing path too.\<close>

definition allocateVm ::
  "string \<Rightarrow> 'a module_state_scheme \<Rightarrow> (error + nat \<times> ipv4) \<times> 'a module_state_scheme" where
  "allocateVm gid s =
     (let vmId = nextVmId s;
          s' = s\<lparr> nextVmId := nextVmId s + 1 \<rparr>
      in if vmId > 253 then (Inl MaxVmCount, s')
         else (Inr (vmId, IPv4 172 16 0 (vmId + 1)), s'))"

text \<open>A run of allocator calls, one per requesting owner, collecting each outcome.\<close>

fun allocate_many ::
  "string list \<Rightarrow> 'a module_state_scheme \<Rightarrow> (error + nat \<times> ipv4) list \<times> 'a module_state_scheme" where
  "allocate_many [] s = ([], s)"
| "allocate_many (g # gs) s =
     (let (r, s') = allocateVm g s; (rs, s'') = allocate_many gs s' in (r # rs, s''))"

definition granted_ids :: "(error + nat \<times> ipv4) list \<Rightarrow> nat list" where
  "granted_ids rs = concat (map (\<lambda>r. case r of Inl _ \<Rightarrow> [] | Inr (i, _) \<Rightarrow> [i]) rs)"

definition in_subnet :: "ipv4 \<Rightarrow> bool" where
  "in_subnet a = (case a of IPv4 a b c d \<Rightarrow> a = 172 \<and> b = 16 \<and> c = 0 \<and> d \<le> 255)"

definition network_address :: ipv4 where
  "network_address = IPv4 172 16 0 0"

definition broadcast_address :: ipv4 where
  "broadcast_address = IPv4 172 16 0 255"

subsection \<open>The host: devices, files, loop mounts, processes\<close>

text \<open>
  The runner acts on the host through \<^verbatim>\<open>execSync\<close>, \<^verbatim>\<open>fs\<close> and
  \<^verbatim>\<open>spawn\<close>. The part of the host it touches is made explicit state, next to
  the module variables: the network devices, the paths that exist, the mount points
  that carry a loop mount, and the live process ids. \<open>calls\<close> counts the external
  calls made so far and \<open>trace\<close> records each of them with its outcome.
\<close>

text \<open>The commands written into the image while it is mounted (the body of the
  \<^verbatim>\<open>try\<close> in \<^verbatim>\<open>prepareRootfs\<close>), in source order.\<close>

datatype inject_step =
    MkdirSshDir
  | ReadPubKey
  | WriteAuthorizedKeys
  | ChmodSshDir
  | ChmodAuthorizedKeys
  | ChownSshDir
  | MkdirClaudeDir
  | CopyClaudeAuth string
  | ChownClaudeDir
  | WriteGatewayKey string
  | ChownGatewayKey
  | ChmodGatewayKey
  | MkdirGuestTarget string
  | CopyMountIn string string
  | ChownGuestTarget string
  | MkdirNetworkDir
  | WriteNetworkConfig ipv4
  | WriteResolvConf

datatype cmd =
    TuntapAdd string
  | LinkSetUp string
  | LinkSetMaster string
  | LinkDelete string
  | CopyBaseImage string
  | MkdirSync string
  | MountLoop string string
  | Inject string inject_step
  | Umount string
  | RmSync string
  | UnlinkSync string
  | Spawn string nat
  | Kill nat
  | ApiCall string string
  | SshProbe ipv4
  | Scp ipv4 string string
  | Sleep nat

datatype event =
    Ev cmd bool
  | SocketAppeared string
  | Allocated string nat
  | Registered string nat
  | Unregistered string
  | Abandoned string nat

record world = module_state +
  netdevs :: "string set"
  files :: "string set"
  loopMounts :: "string set"
  procs :: "nat set"
  calls :: nat
  trace :: "event list"

text \<open>What the task's two \<^verbatim>\<open>execSync\<close> calls can throw: the fields of the error
  object that \<^verbatim>\<open>executeTaskViaSSH\<close> reads. A field the object does not have, or
  that is \<^verbatim>\<open>null\<close>, is \<open>None\<close>.\<close>

record exec_error =
  err_killed :: "bool option"
  err_status :: "int option"
  err_stdout :: string
  err_stderr :: string

text \<open>
  Everything the host decides. \<open>fails n c = Some m\<close>: command \<open>c\<close>, issued as the
  \<open>n\<close>-th external call, throws an error with message \<open>m\<close>. The two polling loops
  are bounded by a deadline, so the host supplies what each poll sees before the
  deadline passes. The \<^verbatim>\<open>execSync('sleep ...')\<close> between two polls is the command
  \<open>Sleep\<close> (its argument in milliseconds) and can throw like any other.
  \<open>startTime\<close> and \<open>elapsed\<close> are the readings of \<^verbatim>\<open>Date.now()\<close>.
\<close>

record env =
  fails :: "nat \<Rightarrow> cmd \<Rightarrow> string option"
  gatewayKey :: "string option"
  spawnPid :: nat
  socketPolls :: "bool list"
  sshPolls :: nat
  uploadResult :: "exec_error option"
  taskRunResult :: "exec_error + string"
  changedFiles :: "string list option"
  startTime :: nat
  elapsed :: nat

text \<open>When the host can carry a command out at all: deleting needs the thing to be
  there, creating a device needs the name to be free.\<close>

fun possible :: "cmd \<Rightarrow> world \<Rightarrow> bool" where
  "possible (TuntapAdd t) w = (t \<notin> netdevs w)"
| "possible (LinkSetUp t) w = (t \<in> netdevs w)"
| "possible (LinkSetMaster t) w = (t \<in> netdevs w)"
| "possible (LinkDelete t) w = (t \<in> netdevs w)"
| "possible (MountLoop img mp) w = (img \<in> files w \<and> mp \<in> files w \<and> mp \<notin> loopMounts w)"
| "possible (Umount mp) w = (mp \<in> loopMounts w)"
| "possible (UnlinkSync p) w = (p \<in> files w)"
| "possible (Kill p) w = (p \<in> procs w)"
| "possible _ w = True"

fun effect :: "cmd \<Rightarrow> world \<Rightarrow> world" where
  "effect (TuntapAdd t) w = w\<lparr> netdevs := insert t (netdevs w) \<rparr>"
| "effect (LinkDelete t) w = w\<lparr> netdevs := netdevs w - {t} \<rparr>"
| "effect (CopyBaseImage p) w = w\<lparr> files := insert p (files w) \<rparr>"
| "effect (MkdirSync p) w = w\<lparr> files := insert p (files w) \<rparr>"
| "effect (MountLoop img mp) w = w\<lparr> loopMounts := insert mp (loopMounts w) \<rparr>"
| "effect (Umount mp) w = w\<lparr> loopMounts := loopMounts w - {mp} \<rparr>"
| "effect (RmSync p) w = w\<lparr> files := files w - {p} \<rparr>"
| "effect (UnlinkSync p) w = w\<lparr> files := files w - {p} \<rparr>"
| "effect (Spawn sock p) w = w\<lparr> procs := insert p (procs w) \<rparr>"
| "effect (Kill p) w = w\<lparr> procs := procs w - {p} \<rparr>"
| "effect _ w = w"

definition log_event :: "event \<Rightarrow> world \<Rightarrow> world" where
  "log_event ev w = w\<lparr> trace := trace w @ [ev] \<rparr>"

text \<open>One external call: it throws when the host cannot carry it out or when the host
  makes it fail, and otherwise takes effect.\<close>

definition exec :: "env \<Rightarrow> cmd \<Rightarrow> world \<Rightarrow> (error + unit) \<times> world" where
  "exec e c w =
     (let w1 = w\<lparr> calls := calls w + 1 \<rparr> in
      if \<not> possible c w then (Inl (ExecError ''Command failed''), log_event (Ev c False) w1)
      else case fails e (calls w) c of
             Some m \<Rightarrow> (Inl (ExecError m), log_event (Ev c False) w1)
           | None \<Rightarrow> (Inr (), effect c (log_event (Ev c True) w1)))"

text \<open>Sequencing: a thrown error skips the rest.\<close>

definition and_then ::
  "(error + 'a) \<times> world \<Rightarrow> ('a \<Rightarrow> world \<Rightarrow> (error + 'b) \<times> world) \<Rightarrow> (error + 'b) \<times> world" where
  "and_then r k = (case r of (Inl x, w) \<Rightarrow> (Inl x, w) | (Inr a, w) \<Rightarrow> k a w)"

fun run_all :: "env \<Rightarrow> cmd list \<Rightarrow> world \<Rightarrow> (error + unit) \<times> world" where
  "run_all e [] w = (Inr (), w)"
| "run_all e (c # cs) w = and_then (exec e c w) (\<lambda>_. run_all e cs)"

text \<open>\<^verbatim>\<open>try { body } finally { fin }\<close>: the finaliser runs on every exit of the body; an
  error it throws replaces the body's outcome.\<close>

definition try_finally ::
  "(error + 'a) \<times> world \<Rightarrow> (world \<Rightarrow> (error + unit) \<times> world) \<Rightarrow> (error + 'a) \<times> world" where
  "try_finally r fin =
     (case r of (res, w) \<Rightarrow>
        (case fin w of (Inl x, w') \<Rightarrow> (Inl x, w') | (Inr _, w') \<Rightarrow> (res, w')))"

text \<open>\<^verbatim>\<open>try { body } catch { }\<close>: the error is dropped.\<close>

definition swallow :: "(error + 'a) \<times> world \<Rightarrow> (error + unit) \<times> world" where
  "swallow r = (case r of (_, w) \<Rightarrow> (Inr (), w))"

subsection \<open>Names derived from the VM id\<close>

definition tapName :: "nat \<Rightarrow> string" where
  "tapName vid = ''tap'' @ show_nat vid"

definition rootfsPathOf :: "nat \<Rightarrow> string" where
  "rootfsPathOf vid = ''/tmp/nanoclaw-vm-'' @ show_nat vid @ ''.ext4''"

definition mountPointOf :: "nat \<Rightarrow> string" where
  "mountPointOf vid = ''/tmp/nanoclaw-mount-'' @ show_nat vid"

definition socketPathOf :: "nat \<Rightarrow> string" where
  "socketPathOf vid = ''/tmp/nanoclaw-fc-'' @ show_nat vid @ ''.socket''"

subsection \<open>TAP devices\<close>

text \<open>\<^verbatim>\<open>String(err)\<close> of an \<^verbatim>\<open>Error\<close> is \<^verbatim>\<open>"Error: " + message\<close>.\<close>

definition error_to_string :: "error \<Rightarrow> string" where
  "error_to_string x = ''Error: '' @ message x"

definition createTapDevice :: "env \<Rightarrow> nat \<Rightarrow> world \<Rightarrow> (error + string) \<times> world" where
  "createTapDevice e vid w =
     (let tap = tapName vid in
      case run_all e [TuntapAdd tap, LinkSetUp tap, LinkSetMaster tap] w of
        (Inl x, w') \<Rightarrow> (Inl (TapCreateFailed tap (error_to_string x)), w')
      | (Inr _, w') \<Rightarrow> (Inr tap, w'))"

definition destroyTapDevice :: "env \<Rightarrow> string \<Rightarrow> world \<Rightarrow> (error + unit) \<times> world" where
  "destroyTapDevice e tap w = swallow (exec e (LinkDelete tap) w)"

subsection \<open>Staging the root filesystem\<close>

text \<open>\<^verbatim>\<open>mount.guestPath.replace(/^\//, '')\<close>\<close>

fun strip_leading_slash :: "string \<Rightarrow> string" where
  "strip_leading_slash [] = []"
| "strip_leading_slash (c # cs) = (if c = CHR ''/'' then cs else c # cs)"

text \<open>
  \<^verbatim>\<open>path.join\<close> of Node (POSIX) for two arguments of which the first is an absolute
  path, as the mount point is: the non-empty arguments are joined by a slash and
  the result is normalised. Normalising an absolute path drops empty segments and
  \<^verbatim>\<open>.\<close>, lets \<^verbatim>\<open>..\<close> remove the segment before it (and nothing at the root), and
  keeps one trailing slash if there was one.
\<close>

fun segments :: "string \<Rightarrow> string \<Rightarrow> string list" where
  "segments cur [] = [rev cur]"
| "segments cur (c # cs) =
     (if c = CHR ''/'' then rev cur # segments [] cs else segments (c # cur) cs)"

fun resolve_segments :: "string list \<Rightarrow> string list \<Rightarrow> string list" where
  "resolve_segments st [] = rev st"
| "resolve_segments st (sg # sgs) =
     (if sg = [] \<or> sg = ''.'' then resolve_segments st sgs
      else if sg = ''..'' then resolve_segments (tl st) sgs
      else resolve_segments (sg # st) sgs)"

fun join_slash :: "string list \<Rightarrow> string" where
  "join_slash [] = []"
| "join_slash [sg] = sg"
| "join_slash (sg # sgs) = sg @ ''/'' @ join_slash sgs"

definition normalize_abs :: "string \<Rightarrow> string" where
  "normalize_abs p =
     (let body = join_slash (resolve_segments [] (segments [] p)) in
      if body = [] then ''/''
      else ''/'' @ body @ (if p \<noteq> [] \<and> last p = CHR ''/'' then ''/'' else []))"

definition path_join :: "string \<Rightarrow> string \<Rightarrow> string" where
  "path_join a b = normalize_abs (if b = [] then a else a @ ''/'' @ b)"

definition guestTargetOf :: "string \<Rightarrow> string \<Rightarrow> string" where
  "guestTargetOf mountPoint gp = path_join mountPoint (strip_leading_slash gp)"

text \<open>The loop over the mounts: a host path that does not exist is skipped, an
  existing one is copied in by three commands, each of which may throw.\<close>

definition copy_in_cmds :: "string \<Rightarrow> Mount \<Rightarrow> cmd list" where
  "copy_in_cmds mp m =
     [Inject mp (MkdirGuestTarget (guestTargetOf mp (guestPath m))),
      Inject mp (CopyMountIn (hostPath m) (guestTargetOf mp (guestPath m))),
      Inject mp (ChownGuestTarget (guestTargetOf mp (guestPath m)))]"

fun stage_mounts :: "env \<Rightarrow> string \<Rightarrow> Mount list \<Rightarrow> world \<Rightarrow> (error + unit) \<times> world" where
  "stage_mounts e mp [] w = (Inr (), w)"
| "stage_mounts e mp (m # ms) w =
     (if hostPath m \<notin> files w then stage_mounts e mp ms w
      else and_then (run_all e (copy_in_cmds mp m) w) (\<lambda>_. stage_mounts e mp ms))"

definition inject_all ::
  "env \<Rightarrow> string \<Rightarrow> ipv4 \<Rightarrow> string \<Rightarrow> Mount list \<Rightarrow> world \<Rightarrow> (error + unit) \<times> world" where
  "inject_all e mp addr claudeAuthDir mounts w =
     and_then (run_all e [Inject mp MkdirSshDir, Inject mp ReadPubKey,
                          Inject mp WriteAuthorizedKeys, Inject mp ChmodSshDir,
                          Inject mp ChmodAuthorizedKeys, Inject mp ChownSshDir] w)
     (\<lambda>_ w. and_then
        (if claudeAuthDir \<in> files w
         then run_all e [Inject mp MkdirClaudeDir, Inject mp (CopyClaudeAuth claudeAuthDir),
                         Inject mp ChownClaudeDir] w
         else (Inr (), w))
     (\<lambda>_ w. and_then
        (case gatewayKey e of
           Some k \<Rightarrow> if k \<noteq> [] then run_all e [Inject mp (WriteGatewayKey k),
                                   Inject mp ChownGatewayKey, Inject mp ChmodGatewayKey] w
                     else (Inr (), w)
         | None \<Rightarrow> (Inr (), w))
     (\<lambda>_ w. and_then (stage_mounts e mp mounts w)
     (\<lambda>_. run_all e [Inject mp MkdirNetworkDir, Inject mp (WriteNetworkConfig addr),
                      Inject mp WriteResolvConf]))))"

definition prepareRootfs ::
  "env \<Rightarrow> nat \<Rightarrow> ipv4 \<Rightarrow> string \<Rightarrow> Mount list \<Rightarrow> world \<Rightarrow> (error + string) \<times> world" where
  "prepareRootfs e vid addr claudeAuthDir mounts w =
     (let rootfs = rootfsPathOf vid; mp = mountPointOf vid in
      and_then (run_all e [CopyBaseImage rootfs, MkdirSync mp, MountLoop rootfs mp] w)
      (\<lambda>_ w. and_then
         (try_finally (inject_all e mp addr claudeAuthDir mounts w)
                      (run_all e [Umount mp, RmSync mp]))
      (\<lambda>_ w. (Inr rootfs, w))))"

subsection \<open>The hypervisor process\<close>

text \<open>\<^verbatim>\<open>proc.kill('SIGKILL')\<close>: returns false, leaving \<^verbatim>\<open>killed\<close> unset,
  when the process is no longer there; sets \<^verbatim>\<open>killed\<close> once the signal is
  delivered.\<close>

definition proc_kill :: "env \<Rightarrow> ChildProcess \<Rightarrow> world \<Rightarrow> (error + ChildProcess) \<times> world" where
  "proc_kill e p w =
     (let w1 = w\<lparr> calls := calls w + 1 \<rparr> in
      if pid p \<notin> procs w then (Inr p, log_event (Ev (Kill (pid p)) False) w1)
      else case fails e (calls w) (Kill (pid p)) of
             Some m \<Rightarrow> (Inl (ExecError m), log_event (Ev (Kill (pid p)) False) w1)
           | None \<Rightarrow> (Inr (p\<lparr> killed := True \<rparr>),
                      effect (Kill (pid p)) (log_event (Ev (Kill (pid p)) True) w1)))"

text \<open>The wait for the control socket. Each element of the list is what one
  \<^verbatim>\<open>fs.existsSync(socketPath)\<close> sees while the deadline has not passed; after a
  poll that saw nothing the loop sleeps, outside any \<^verbatim>\<open>try\<close>, so an error of the
  sleep leaves the function with the process running. The list ends where the
  deadline has passed, and then the process is killed and the error thrown.\<close>

fun await_socket ::
  "env \<Rightarrow> string \<Rightarrow> ChildProcess \<Rightarrow> bool list \<Rightarrow> world \<Rightarrow> (error + ChildProcess) \<times> world" where
  "await_socket e sock p [] w =
     and_then (proc_kill e p w) (\<lambda>_ w. (Inl (SocketTimeout sock), w))"
| "await_socket e sock p (seen # rest) w =
     (if seen then (Inr p, log_event (SocketAppeared sock) (w\<lparr> files := insert sock (files w) \<rparr>))
      else and_then (exec e (Sleep 100) w) (\<lambda>_. await_socket e sock p rest))"

definition startFirecrackerProcess ::
  "env \<Rightarrow> nat \<Rightarrow> world \<Rightarrow> (error + ChildProcess \<times> string) \<times> world" where
  "startFirecrackerProcess e vid w =
     (let sock = socketPathOf vid in
      and_then (if sock \<in> files w then exec e (UnlinkSync sock) w else (Inr (), w))
      (\<lambda>_ w. and_then (exec e (Spawn sock (spawnPid e)) w)
      (\<lambda>_ w. and_then (await_socket e sock \<lparr> pid = spawnPid e, killed = False \<rparr> (socketPolls e) w)
      (\<lambda>p w. (Inr (p, sock), w)))))"

definition configureAndBootVM :: "env \<Rightarrow> string \<Rightarrow> world \<Rightarrow> (error + unit) \<times> world" where
  "configureAndBootVM e sock w =
     run_all e [ApiCall sock ''/boot-source'', ApiCall sock ''/drives/rootfs'',
                ApiCall sock ''/network-interfaces/eth0'', ApiCall sock ''/machine-config'',
                ApiCall sock ''/actions''] w"

subsection \<open>The remote execution bridge\<close>

text \<open>\<^verbatim>\<open>waitForSSH\<close>: the number is how many probes fit before the deadline. The
  sleep after a failed probe is inside the \<^verbatim>\<open>catch\<close>, so its error leaves the
  function.\<close>

fun waitForSSH :: "env \<Rightarrow> ipv4 \<Rightarrow> nat \<Rightarrow> world \<Rightarrow> (error + unit) \<times> world" where
  "waitForSSH e addr 0 w = (Inl (SshUnavailable addr), w)"
| "waitForSSH e addr (Suc n) w =
     (case exec e (SshProbe addr) w of
        (Inr _, w') \<Rightarrow> (Inr (), w')
      | (Inl _, w') \<Rightarrow> and_then (exec e (Sleep 500) w') (\<lambda>_. waitForSSH e addr n))"

text \<open>The \<^verbatim>\<open>catch\<close> of \<^verbatim>\<open>executeTaskViaSSH\<close>, shared by the upload and the run.\<close>

definition on_exec_error :: "nat \<Rightarrow> exec_error \<Rightarrow> error + string \<times> int" where
  "on_exec_error timeoutMs err =
     (if err_killed err = Some True then Inl (TaskTimedOut timeoutMs)
      else Inr (err_stdout err @ [CHR 0x0A] @ err_stderr err,
                case err_status err of Some st \<Rightarrow> st | None \<Rightarrow> 1))"

definition executeTaskViaSSH :: "env \<Rightarrow> ipv4 \<Rightarrow> string \<Rightarrow> nat \<Rightarrow> error + string \<times> int" where
  "executeTaskViaSSH e addr task timeoutMs =
     (case uploadResult e of
        Some err \<Rightarrow> on_exec_error timeoutMs err
      | None \<Rightarrow>
          (case taskRunResult e of
             Inr out \<Rightarrow> Inr (out, 0)
           | Inl err \<Rightarrow> on_exec_error timeoutMs err))"

definition getChangedFiles :: "env \<Rightarrow> ipv4 \<Rightarrow> string list" where
  "getChangedFiles e addr = (case changedFiles e of Some fs \<Rightarrow> fs | None \<Rightarrow> [])"

fun syncFilesBack :: "env \<Rightarrow> ipv4 \<Rightarrow> Mount list \<Rightarrow> world \<Rightarrow> (error + unit) \<times> world" where
  "syncFilesBack e addr [] w = (Inr (), w)"
| "syncFilesBack e addr (m # ms) w =
     (if readOnly m then syncFilesBack e addr ms w
      else and_then (swallow (exec e (Scp addr (guestPath m) (hostPath m)) w))
                    (\<lambda>_. syncFilesBack e addr ms))"

subsection \<open>Teardown\<close>

text \<open>\<^verbatim>\<open>cleanupVM\<close>, in two parts: the four guarded release steps, then
  \<^verbatim>\<open>activeVMs.delete(vm.groupId)\<close>.\<close>

definition release_resources :: "env \<Rightarrow> MicroVM \<Rightarrow> world \<Rightarrow> (error + unit) \<times> world" where
  "release_resources e vm w =
     and_then (swallow (if \<not> killed (process vm) then proc_kill e (process vm) w
                        else (Inr (process vm), w)))
     (\<lambda>_ w. and_then (destroyTapDevice e (tapDevice vm) w)
     (\<lambda>_ w. and_then (swallow (exec e (UnlinkSync (rootfsPath vm)) w))
     (\<lambda>_ w. swallow (exec e (UnlinkSync (socketPath vm)) w))))"

definition unregister :: "string \<Rightarrow> world \<Rightarrow> world" where
  "unregister gid w =
     log_event (Unregistered gid) (w\<lparr> activeVMs := (activeVMs w)(gid := None) \<rparr>)"

definition cleanupVM :: "env \<Rightarrow> MicroVM \<Rightarrow> world \<Rightarrow> (error + unit) \<times> world" where
  "cleanupVM e vm w =
     and_then (release_resources e vm w) (\<lambda>_ w. (Inr (), unregister (groupId vm) w))"

text \<open>The \<^verbatim>\<open>else\<close> branch of the \<^verbatim>\<open>finally\<close> in \<^verbatim>\<open>runTask\<close>.\<close>

definition cleanup_partial :: "env \<Rightarrow> nat \<Rightarrow> world \<Rightarrow> (error + unit) \<times> world" where
  "cleanup_partial e vid w =
     and_then (destroyTapDevice e (tapName vid) w)
     (\<lambda>_ w. and_then (swallow (exec e (UnlinkSync (rootfsPathOf vid)) w))
     (\<lambda>_ w. swallow (exec e (UnlinkSync (socketPathOf vid)) w)))"

text \<open>The end of that branch, marked in the trace: the sandbox was never registered
  and is now given up.\<close>

definition abandon :: "env \<Rightarrow> string \<Rightarrow> nat \<Rightarrow> world \<Rightarrow> (error + unit) \<times> world" where
  "abandon e gid vid w =
     and_then (cleanup_partial e vid w) (\<lambda>_ w. (Inr (), log_event (Abandoned gid vid) w))"

subsection \<open>runTask\<close>

text \<open>Steps 1 to 3 and the construction of the \<^verbatim>\<open>vm\<close> record: while these run the
  variable \<^verbatim>\<open>vm\<close> is still \<^verbatim>\<open>null\<close>.\<close>

definition provision ::
  "env \<Rightarrow> string \<Rightarrow> nat \<Rightarrow> ipv4 \<Rightarrow> string \<Rightarrow> Mount list \<Rightarrow> world \<Rightarrow> (error + MicroVM) \<times> world" where
  "provision e gid vid addr claudeAuthDir mounts w =
     and_then (createTapDevice e vid w)
     (\<lambda>tap w. and_then (prepareRootfs e vid addr claudeAuthDir mounts w)
     (\<lambda>rootfs w. and_then (startFirecrackerProcess e vid w)
     (\<lambda>(p, sock) w.
        (Inr \<lparr> vmId = vid, groupId = gid, ip = addr, tapDevice = tap, rootfsPath = rootfs,
               socketPath = sock, process = p, startedAt = startTime e \<rparr>, w))))"

definition register :: "MicroVM \<Rightarrow> world \<Rightarrow> world" where
  "register vm w =
     log_event (Registered (groupId vm) (vmId vm))
       (w\<lparr> activeVMs := (activeVMs w)(groupId vm \<mapsto> vm) \<rparr>)"

text \<open>Steps 4 to 8, after \<^verbatim>\<open>activeVMs.set(groupId, vm)\<close>.\<close>

definition execute_steps ::
  "env \<Rightarrow> MicroVM \<Rightarrow> string \<Rightarrow> Mount list \<Rightarrow> nat \<Rightarrow> world \<Rightarrow> (error + TaskResult) \<times> world" where
  "execute_steps e vm task mounts timeoutMs w =
     and_then (configureAndBootVM e (socketPath vm) w)
     (\<lambda>_ w. and_then (waitForSSH e (ip vm) (sshPolls e) w)
     (\<lambda>_ w. case executeTaskViaSSH e (ip vm) task timeoutMs of
               Inl x \<Rightarrow> (Inl x, w)
             | Inr (out, code) \<Rightarrow>
                 and_then (syncFilesBack e (ip vm) mounts w)
                 (\<lambda>_ w. (Inr \<lparr> output_text = out, filesChanged = getChangedFiles e (ip vm),
                               exitCode = code, durationMs = elapsed e \<rparr>, w))))"

text \<open>The \<^verbatim>\<open>catch\<close> of \<^verbatim>\<open>runTask\<close>.\<close>

definition error_result :: "env \<Rightarrow> error \<Rightarrow> TaskResult" where
  "error_result e x =
     \<lparr> output_text = ''Error: '' @ message x, filesChanged = [], exitCode = 1,
       durationMs = elapsed e \<rparr>"

definition catch_error ::
  "env \<Rightarrow> (error + TaskResult) \<times> world \<Rightarrow> (error + TaskResult) \<times> world" where
  "catch_error e r = (case r of (Inl x, w) \<Rightarrow> (Inr (error_result e x), w) | (Inr t, w) \<Rightarrow> (Inr t, w))"

text \<open>
  \<^verbatim>\<open>runTask\<close> from \<^verbatim>\<open>allocateVm\<close> to its return. Nothing in this part awaits, so
  it runs without interleaving. \<^verbatim>\<open>allocateVm\<close> is called before the \<^verbatim>\<open>try\<close>: its
  error leaves the function as a thrown error (\<open>Inl\<close>), and neither the
  \<^verbatim>\<open>catch\<close> nor the \<^verbatim>\<open>finally\<close> runs.
\<close>

definition runTask_admitted ::
  "env \<Rightarrow> string \<Rightarrow> string \<Rightarrow> Mount list \<Rightarrow> string \<Rightarrow> nat \<Rightarrow> world \<Rightarrow> (error + TaskResult) \<times> world" where
  "runTask_admitted e gid task mounts claudeAuthDir timeoutMs w =
     (case allocateVm gid w of
        (Inl x, w1) \<Rightarrow> (Inl x, w1)
      | (Inr (vid, addr), w1) \<Rightarrow>
          (case provision e gid vid addr claudeAuthDir mounts (log_event (Allocated gid vid) w1) of
             (Inl x, w2) \<Rightarrow>
               try_finally (catch_error e (Inl x, w2)) (abandon e gid vid)
           | (Inr vm, w2) \<Rightarrow>
               try_finally (catch_error e (execute_steps e vm task mounts timeoutMs (register vm w2)))
                           (cleanupVM e vm)))"

subsection \<open>Reading the trace\<close>

text \<open>The events a computation added to the trace, and an event with its outcome
  forgotten (what was attempted, whether or not it succeeded).\<close>

definition new_events :: "world \<Rightarrow> world \<Rightarrow> event list" where
  "new_events w w' = drop (length (trace w)) (trace w')"

fun attempted :: "event \<Rightarrow> event" where
  "attempted (Ev c b) = Ev c True"
| "attempted ev = ev"

declare run_all.simps [simp del]

subsection \<open>Relations kept by every step\<close>

text \<open>A reflexive and transitive relation between the world before and after that
  every external call of a class of commands keeps; \<open>host_keeps\<close> adds the two
  other ways the host state changes, the kill of the hypervisor and the appearance
  of its socket. What holds for the steps then holds for each routine built from
  them.\<close>

definition cmds_keep :: "(cmd \<Rightarrow> bool) \<Rightarrow> (world \<Rightarrow> world \<Rightarrow> bool) \<Rightarrow> env \<Rightarrow> bool" where
  "cmds_keep C R e \<longleftrightarrow>
     reflp R \<and> transp R \<and> (\<forall>c w. C c \<longrightarrow> R w (snd (exec e c w)))"

definition host_keeps :: "(world \<Rightarrow> world \<Rightarrow> bool) \<Rightarrow> env \<Rightarrow> bool" where
  "host_keeps R e \<longleftrightarrow>
     cmds_keep (\<lambda>c. True) R e
     \<and> (\<forall>p w. R w (snd (proc_kill e p w)))
     \<and> (\<forall>s w. R w (log_event (SocketAppeared s) (w\<lparr> files := insert s (files w) \<rparr>)))"

subsection \<open>Frames and sample inputs\<close>

text \<open>Events of the host, as opposed to the three events of the module state.\<close>

fun plain :: "event \<Rightarrow> bool" where
  "plain (Ev c b) = True"
| "plain (SocketAppeared s) = True"
| "plain ev = False"

text \<open>A computation that leaves the module variables alone and adds host events
  only.\<close>

definition host_only :: "world \<Rightarrow> world \<Rightarrow> bool" where
  "host_only w w' \<longleftrightarrow>
     nextVmId w' = nextVmId w \<and> activeVMs w' = activeVMs w
     \<and> (\<exists>evs. trace w' = trace w @ evs \<and> list_all plain evs)"

text \<open>One call of \<^verbatim>\<open>runTask\<close>: its arguments and what the host does during it.\<close>

record task_call =
  call_env :: env
  call_group :: string
  call_task :: string
  call_mounts :: "Mount list"
  call_authDir :: string
  call_timeout :: nat

definition run_call :: "task_call \<Rightarrow> world \<Rightarrow> (error + TaskResult) \<times> world" where
  "run_call c w =
     runTask_admitted (call_env c) (call_group c) (call_task c) (call_mounts c)
       (call_authDir c) (call_timeout c) w"

text \<open>Calls made one after the other, each admitted at once.\<close>

fun run_calls :: "task_call list \<Rightarrow> world \<Rightarrow> world" where
  "run_calls [] w = w"
| "run_calls (c # cs) w = run_calls cs (snd (run_call c w))"

definition initial_world :: world where
  "initial_world =
     \<lparr> nextVmId = 1, activeVMs = Map.empty, netdevs = {}, files = {}, loopMounts = {},
       procs = {}, calls = 0, trace = [] \<rparr>"

text \<open>A host on which every command succeeds, the socket shows at the second poll,
  and the task prints \<^verbatim>\<open>ok\<close>.\<close>

definition good_env :: env where
  "good_env =
     \<lparr> fails = (\<lambda>n c. None), gatewayKey = None, spawnPid = 4242,
       socketPolls = [False, True], sshPolls = 3, uploadResult = None,
       taskRunResult = Inr ''ok'', changedFiles = Some [], startTime = 0, elapsed = 1200 \<rparr>"

definition sample_call :: task_call where
  "sample_call =
     \<lparr> call_env = good_env, call_group = ''alice'', call_task = ''echo ok'',
       call_mounts = [], call_authDir = ''/creds/alice'', call_timeout = 5000 \<rparr>"

text \<open>The record \<^verbatim>\<open>runTask\<close> builds for the first sandbox.\<close>

definition sample_vm :: MicroVM where
  "sample_vm =
     \<lparr> vmId = 1, groupId = ''alice'', ip = IPv4 172 16 0 2, tapDevice = ''tap1'',
       rootfsPath = ''/tmp/nanoclaw-vm-1.ext4'', socketPath = ''/tmp/nanoclaw-fc-1.socket'',
       process = \<lparr> pid = 4242, killed = False \<rparr>, startedAt = 0 \<rparr>"

text \<open>The error \<^verbatim>\<open>execSync\<close> throws when its \<^verbatim>\<open>timeout\<close> option expires, as the
  Node.js documentation gives it: the result object of \<^verbatim>\<open>spawnSync\<close> (\<^verbatim>\<open>pid\<close>,
  \<^verbatim>\<open>output\<close>, \<^verbatim>\<open>stdout\<close>, \<^verbatim>\<open>stderr\<close>, \<^verbatim>\<open>status\<close>, \<^verbatim>\<open>signal\<close>,
  \<^verbatim>\<open>error\<close>), with \<^verbatim>\<open>status\<close> null because the child was ended by a signal. It has
  no property \<^verbatim>\<open>killed\<close>; that one belongs to the errors of the asynchronous
  \<^verbatim>\<open>exec\<close>.\<close>

definition execSync_timeout_error :: "string \<Rightarrow> string \<Rightarrow> exec_error" where
  "execSync_timeout_error out err =
     \<lparr> err_killed = None, err_status = None, err_stdout = out, err_stderr = err \<rparr>"

text \<open>The error of a command that ran to its end with exit status \<open>st\<close>.\<close>

definition execSync_exit_error :: "int \<Rightarrow> string \<Rightarrow> string \<Rightarrow> exec_error" where
  "execSync_exit_error st out err =
     \<lparr> err_killed = None, err_status = Some st, err_stdout = out, err_stderr = err \<rparr>"


text \<open>Two mounts for the examples; the host path of the first does not exist.\<close>

definition missing_mount :: Mount where
  "missing_mount = \<lparr> hostPath = ''/tmp/src'', guestPath = ''/workspace'', readOnly = False \<rparr>"


text \<open>The error thrown inside the \<^verbatim>\<open>try\<close> of \<^verbatim>\<open>runTask\<close>, if any step throws.\<close>

definition thrown_in_try ::
  "env \<Rightarrow> string \<Rightarrow> string \<Rightarrow> Mount list \<Rightarrow> string \<Rightarrow> nat \<Rightarrow> world \<Rightarrow> error option" where
  "thrown_in_try e gid task mounts claudeAuthDir timeoutMs w =
     (case allocateVm gid w of
        (Inl x, w1) \<Rightarrow> None
      | (Inr (vid, addr), w1) \<Rightarrow>
          (case provision e gid vid addr claudeAuthDir mounts (log_event (Allocated gid vid) w1) of
             (Inl x, w2) \<Rightarrow> Some x
           | (Inr vm, w2) \<Rightarrow>
               (case fst (execute_steps e vm task mounts timeoutMs (register vm w2)) of
                  Inl x \<Rightarrow> Some x
                | Inr res \<Rightarrow> None)))"

text \<open>A host on which the TAP device cannot be created.\<close>

definition no_tap_env :: env where
  "no_tap_env =
     good_env\<lparr> fails := (\<lambda>n c. if c = TuntapAdd ''tap1'' then Some ''Command failed: ip tuntap'' else None) \<rparr>"

text \<open>A second call for the same owner.\<close>

definition late_call :: task_call where
  "late_call = sample_call\<lparr> call_task := ''echo late'' \<rparr>"

text \<open>The commands that give a resource back.\<close>

fun is_release :: "cmd \<Rightarrow> bool" where
  "is_release (LinkDelete t) = True"
| "is_release (UnlinkSync p) = True"
| "is_release (Kill p) = True"
| "is_release (Umount mp) = True"
| "is_release (RmSync p) = True"
| "is_release c = False"

text \<open>A host that carries out every release it is able to: such a command fails
  only when the thing to release is not there.\<close>

definition host_releases :: "env \<Rightarrow> bool" where
  "host_releases e \<longleftrightarrow> (\<forall>n c. is_release c \<longrightarrow> fails e n c = None)"

text \<open>The state of the host is the same in both worlds.\<close>

definition same_host :: "world \<Rightarrow> world \<Rightarrow> bool" where
  "same_host w w' \<longleftrightarrow>
     netdevs w' = netdevs w \<and> files w' = files w \<and> loopMounts w' = loopMounts w
     \<and> procs w' = procs w"

text \<open>Commands without effect on the host state that is modelled: they act inside
  the image or the guest.\<close>

fun inert :: "cmd \<Rightarrow> bool" where
  "inert (Inject mp s) = True"
| "inert (ApiCall sock p) = True"
| "inert (SshProbe a) = True"
| "inert (Scp a g h) = True"
| "inert (LinkSetUp t) = True"
| "inert (LinkSetMaster t) = True"
| "inert (Sleep ms) = True"
| "inert c = False"

text \<open>A host on which reading the public key fails during staging.\<close>

definition no_pubkey_env :: env where
  "no_pubkey_env =
     good_env\<lparr> fails := (\<lambda>n c. if c = Inject ''/tmp/nanoclaw-mount-1'' ReadPubKey
                                then Some ''ENOENT: no such file'' else None) \<rparr>"

subsection \<open>The resources of one invocation\<close>

text \<open>The events by which the four resources of the sandbox with id \<open>vid\<close> and
  hypervisor process \<open>p\<close> come into being and are given back.\<close>

definition tap_acquired :: "nat \<Rightarrow> event" where
  "tap_acquired vid = Ev (TuntapAdd (tapName vid)) True"

definition tap_released :: "nat \<Rightarrow> event" where
  "tap_released vid = Ev (LinkDelete (tapName vid)) True"

definition image_acquired :: "nat \<Rightarrow> event" where
  "image_acquired vid = Ev (CopyBaseImage (rootfsPathOf vid)) True"

definition image_released :: "nat \<Rightarrow> event" where
  "image_released vid = Ev (UnlinkSync (rootfsPathOf vid)) True"

definition socket_acquired :: "nat \<Rightarrow> event" where
  "socket_acquired vid = SocketAppeared (socketPathOf vid)"

definition socket_released :: "nat \<Rightarrow> event" where
  "socket_released vid = Ev (UnlinkSync (socketPathOf vid)) True"

definition proc_acquired :: "nat \<Rightarrow> nat \<Rightarrow> event" where
  "proc_acquired vid p = Ev (Spawn (socketPathOf vid) p) True"

definition proc_released :: "nat \<Rightarrow> event" where
  "proc_released p = Ev (Kill p) True"

text \<open>The ledger of a sandbox: the part of the trace made of these eight events.\<close>

definition is_ledger :: "nat \<Rightarrow> nat \<Rightarrow> event \<Rightarrow> bool" where
  "is_ledger vid p ev \<longleftrightarrow>
     ev \<in> {tap_acquired vid, tap_released vid, image_acquired vid, image_released vid,
           socket_acquired vid, socket_released vid, proc_acquired vid p, proc_released p}"

definition led :: "nat \<Rightarrow> nat \<Rightarrow> world \<Rightarrow> event list" where
  "led vid p w = filter (is_ledger vid p) (trace w)"

text \<open>Which of the four resources are there, and the ledger so far.\<close>

definition rv :: "nat \<Rightarrow> nat \<Rightarrow> world \<Rightarrow> bool \<times> bool \<times> bool \<times> bool \<times> event list" where
  "rv vid p w =
     (tapName vid \<in> netdevs w, rootfsPathOf vid \<in> files w, socketPathOf vid \<in> files w,
      p \<in> procs w, led vid p w)"






subsection \<open>Overlapping calls\<close>

text \<open>
  \<^verbatim>\<open>runTask\<close> is an \<^verbatim>\<open>async\<close> function whose only \<^verbatim>\<open>await\<close> is the sleep inside
  the admission loop; every other call it makes is synchronous. A call therefore
  runs in turns of the event loop: the first turn tests \<^verbatim>\<open>activeVMs.has(groupId)\<close>
  and either suspends in the loop or goes on, without interruption, from
  \<^verbatim>\<open>allocateVm\<close> to the end of the \<^verbatim>\<open>finally\<close>; each later turn of a suspended
  call wakes from the sleep and tests again. \<^verbatim>\<open>killVM\<close> has no \<^verbatim>\<open>await\<close> and is
  one turn. A schedule is the order in which the event loop runs these turns.
\<close>

datatype turn = Call task_call | Wake nat | KillVM env string

record system =
  sys_world :: world
  waiting :: "task_call list"
  settled :: "(error + TaskResult) list"

definition proceed :: "task_call \<Rightarrow> system \<Rightarrow> system" where
  "proceed c s =
     (case run_call c (sys_world s) of
        (r, w') \<Rightarrow> s\<lparr> sys_world := w', settled := settled s @ [r] \<rparr>)"

definition killVM :: "env \<Rightarrow> string \<Rightarrow> world \<Rightarrow> world" where
  "killVM e gid w =
     (case activeVMs w gid of None \<Rightarrow> w | Some vm \<Rightarrow> snd (cleanupVM e vm w))"

fun sys_step :: "turn \<Rightarrow> system \<Rightarrow> system" where
  "sys_step (Call c) s =
     (if activeVMs (sys_world s) (call_group c) \<noteq> None
      then s\<lparr> waiting := waiting s @ [c] \<rparr>
      else proceed c s)"
| "sys_step (Wake i) s =
     (if i < length (waiting s)
      then (if activeVMs (sys_world s) (call_group (waiting s ! i)) \<noteq> None then s
            else proceed (waiting s ! i)
                   (s\<lparr> waiting := take i (waiting s) @ drop (Suc i) (waiting s) \<rparr>))
      else s)"
| "sys_step (KillVM e gid) s = s\<lparr> sys_world := killVM e gid (sys_world s) \<rparr>"

fun run_schedule :: "turn list \<Rightarrow> system \<Rightarrow> system" where
  "run_schedule [] s = s"
| "run_schedule (t # ts) s = run_schedule ts (sys_step t s)"

text \<open>
  Reading a trace with the owners that have a sandbox which has been allocated and
  has not yet retired. A sandbox retires when it is removed from the live map at
  the end of its teardown or, if it was never registered, when its partial cleanup
  is over. The trace is serial when every allocation for an owner happens while
  that owner has no such sandbox, and every registration is that of the owner's one
  allocated sandbox.
\<close>

fun serial :: "string list \<Rightarrow> event list \<Rightarrow> bool" where
  "serial busy [] = True"
| "serial busy (Allocated g v # evs) = (g \<notin> set busy \<and> serial (g # busy) evs)"
| "serial busy (Registered g v # evs) = (g \<in> set busy \<and> serial busy evs)"
| "serial busy (Unregistered g # evs) = serial (removeAll g busy) evs"
| "serial busy (Abandoned g v # evs) = serial (removeAll g busy) evs"
| "serial busy (ev # evs) = serial busy evs"

text \<open>The owners with an allocated, not yet retired sandbox once the events have
  happened.\<close>

fun busy_after :: "string list \<Rightarrow> event list \<Rightarrow> string list" where
  "busy_after busy [] = busy"
| "busy_after busy (Allocated g v # evs) = busy_after (g # busy) evs"
| "busy_after busy (Unregistered g # evs) = busy_after (removeAll g busy) evs"
| "busy_after busy (Abandoned g v # evs) = busy_after (removeAll g busy) evs"
| "busy_after busy (ev # evs) = busy_after busy evs"

text \<open>The process at its start: nothing allocated, nobody waiting.\<close>

definition initial_system :: system where
  "initial_system = \<lparr> sys_world = initial_world, waiting = [], settled = [] \<rparr>"

text \<open>A process in which a sandbox of \<^verbatim>\<open>alice\<close> is in the live map.\<close>

definition alice_live_system :: system where
  "alice_live_system =
     \<lparr> sys_world = initial_world\<lparr> nextVmId := 2, activeVMs := [''alice'' \<mapsto> sample_vm] \<rparr>,
       waiting = [], settled = [] \<rparr>"

text \<open>A host on which reading the public key fails during staging and the unmount
  that follows fails too.\<close>

definition stuck_mount_env :: env where
  "stuck_mount_env =
     good_env\<lparr> fails := (\<lambda>n c. if c = Inject ''/tmp/nanoclaw-mount-1'' ReadPubKey
                                then Some ''ENOENT: no such file''
                                else if c = Umount ''/tmp/nanoclaw-mount-1''
                                then Some ''umount: target is busy'' else None) \<rparr>"



text \<open>A host on which the sleep between two polls for the control socket throws.\<close>

definition poll_sleep_fails_env :: env where
  "poll_sleep_fails_env =
     good_env\<lparr> fails := (\<lambda>n c. if c = Sleep 100 then Some ''spawnSync /bin/sh EAGAIN'' else None) \<rparr>"

section \<open>The allocator\<close>

lemma allocate_many_counter:
  "nextVmId (snd (allocate_many gs s)) = nextVmId s + length gs"
proof (induction gs arbitrary: s)
  case Nil
  then show ?case by simp
next
  case (Cons g gs)
  obtain r s' where a: "allocateVm g s = (r, s')" by (cases "allocateVm g s")
  obtain rs s'' where m: "allocate_many gs s' = (rs, s'')" by (cases "allocate_many gs s'")
  have n: "nextVmId s' = nextVmId s + 1"
    using a by (auto simp: allocateVm_def Let_def split: if_splits)
  show ?case using Cons.IH [of s'] a m n by simp
qed

lemma allocate_many_ids_bounds:
  "i \<in> set (granted_ids (fst (allocate_many gs s))) \<Longrightarrow> nextVmId s \<le> i \<and> i < nextVmId s + length gs"
proof (induction gs arbitrary: s)
  case Nil
  then show ?case by (simp add: granted_ids_def)
next
  case (Cons g gs)
  obtain r s' where a: "allocateVm g s = (r, s')" by (cases "allocateVm g s")
  obtain rs s'' where m: "allocate_many gs s' = (rs, s'')" by (cases "allocate_many gs s'")
  have n: "nextVmId s' = nextVmId s + 1"
    using a by (auto simp: allocateVm_def Let_def split: if_splits)
  from Cons.prems a m have "i \<in> set (granted_ids [r]) \<or> i \<in> set (granted_ids rs)"
    by (auto simp: granted_ids_def)
  then show ?case
  proof
    assume "i \<in> set (granted_ids [r])"
    then have "i = nextVmId s"
      using a by (auto simp: granted_ids_def allocateVm_def Let_def split: if_splits sum.splits)
    then show ?thesis by simp
  next
    assume "i \<in> set (granted_ids rs)"
    then have "nextVmId s' \<le> i \<and> i < nextVmId s' + length gs"
      using Cons.IH [of s'] m by simp
    then show ?thesis using n by simp
  qed
qed

lemma allocate_many_distinct:
  "distinct (granted_ids (fst (allocate_many gs s)))"
proof (induction gs arbitrary: s)
  case Nil
  then show ?case by (simp add: granted_ids_def)
next
  case (Cons g gs)
  obtain r s' where a: "allocateVm g s = (r, s')" by (cases "allocateVm g s")
  obtain rs s'' where m: "allocate_many gs s' = (rs, s'')" by (cases "allocate_many gs s'")
  have n: "nextVmId s' = nextVmId s + 1"
    using a by (auto simp: allocateVm_def Let_def split: if_splits)
  have d: "distinct (granted_ids rs)" using Cons.IH [of s'] m by simp
  have later: "\<forall>i \<in> set (granted_ids rs). nextVmId s < i"
    using allocate_many_ids_bounds [of _ gs s'] m n by fastforce
  have first: "set (granted_ids [r]) \<subseteq> {nextVmId s}" "distinct (granted_ids [r])"
    using a by (auto simp: granted_ids_def allocateVm_def Let_def split: if_splits sum.splits)
  have "granted_ids (r # rs) = granted_ids [r] @ granted_ids rs"
    by (simp add: granted_ids_def)
  then show ?case using a m d later first by auto
qed

text \<open>
  Claim C5. Each allocator call hands out the current value of the in-memory counter
  and advances it by one; the address is 172.16.0.(id+1); the call fails with the
  capacity error exactly when the id exceeds 253; for a counter that started at 1
  every accepted id gives an address inside 172.16.0.0/24 that is neither the
  network address, nor the broadcast address, nor the bridge address; and the ids
  granted by any run of allocator calls are pairwise distinct.
\<close>

theorem allocateVm_contract:
  "nextVmId (snd (allocateVm g s)) = nextVmId s + 1
   \<and> (nextVmId s > 253 \<longleftrightarrow> fst (allocateVm g s) = Inl MaxVmCount)
   \<and> (nextVmId s \<le> 253 \<longleftrightarrow>
        fst (allocateVm g s) = Inr (nextVmId s, IPv4 172 16 0 (nextVmId s + 1)))
   \<and> (\<forall>i a. 1 \<le> nextVmId s \<and> fst (allocateVm g s) = Inr (i, a) \<longrightarrow>
        in_subnet a \<and> a \<noteq> network_address \<and> a \<noteq> broadcast_address \<and> a \<noteq> BRIDGE_IP)
   \<and> distinct (granted_ids (fst (allocate_many gs s)))"
proof -
  have "distinct (granted_ids (fst (allocate_many gs s)))"
    by (rule allocate_many_distinct)
  then show ?thesis
    by (auto simp: allocateVm_def Let_def in_subnet_def network_address_def
        broadcast_address_def BRIDGE_IP_def)
qed

theorem allocateVm_contract_witness:
  "fst (allocateVm ''alice'' initial_state) = Inr (1, IPv4 172 16 0 2)
   \<and> in_subnet (IPv4 172 16 0 2) \<and> IPv4 172 16 0 2 \<noteq> BRIDGE_IP
   \<and> distinct (granted_ids (fst (allocate_many [''alice'', ''bob''] initial_state)))"
  using allocateVm_contract [of "''alice''" initial_state "[''alice'', ''bob'']"]
  by (simp add: initial_state_def in_subnet_def BRIDGE_IP_def)

section \<open>Basic facts about external calls\<close>

lemma exec_trace:
  "trace (snd (exec e c w)) = trace w @ [Ev c (fst (exec e c w) = Inr ())]"
  by (cases c) (auto simp: exec_def Let_def log_event_def split: option.splits)

lemma swallow_simps [simp]:
  "fst (swallow r) = Inr ()" "snd (swallow r) = snd r"
  by (auto simp: swallow_def split: prod.splits)

lemma and_then_Inr:
  "fst r = Inr a \<Longrightarrow> and_then r k = k a (snd r)"
  by (cases r) (auto simp: and_then_def)

lemma and_then_swallow [simp]:
  "and_then (swallow r) k = k () (snd r)"
  by (cases r) (simp add: and_then_def swallow_def)

lemma new_events_append [simp]:
  "trace w' = trace w @ evs \<Longrightarrow> new_events w w' = evs"
  by (simp add: new_events_def)

lemma proc_kill_trace:
  "trace (snd (proc_kill e p w)) =
     trace w @ [Ev (Kill (pid p)) (pid p \<in> procs w \<and> fails e (calls w) (Kill (pid p)) = None)]"
  by (auto simp: proc_kill_def Let_def log_event_def split: option.splits)

section \<open>Write-back\<close>

lemma syncFilesBack_ok: "fst (syncFilesBack e addr ms w) = Inr ()"
  by (induction ms arbitrary: w) auto

lemma syncFilesBack_trace:
  "\<exists>evs. trace (snd (syncFilesBack e addr ms w)) = trace w @ evs
     \<and> map attempted evs =
         map (\<lambda>m. Ev (Scp addr (guestPath m) (hostPath m)) True) (filter (\<lambda>m. \<not> readOnly m) ms)"
proof (induction ms arbitrary: w)
  case Nil
  then show ?case by simp
next
  case (Cons m ms)
  show ?case
  proof (cases "readOnly m")
    case True
    then show ?thesis using Cons.IH [of w] by simp
  next
    case False
    let ?c = "Scp addr (guestPath m) (hostPath m)"
    let ?w1 = "snd (exec e ?c w)"
    from Cons.IH [of ?w1] obtain evs where
      evs: "trace (snd (syncFilesBack e addr ms ?w1)) = trace ?w1 @ evs"
        "map attempted evs =
           map (\<lambda>m. Ev (Scp addr (guestPath m) (hostPath m)) True) (filter (\<lambda>m. \<not> readOnly m) ms)"
      by blast
    have "trace (snd (syncFilesBack e addr (m # ms) w)) =
            trace w @ (Ev ?c (fst (exec e ?c w) = Inr ()) # evs)"
      using False evs(1) by (simp add: exec_trace)
    moreover have "map attempted (Ev ?c (fst (exec e ?c w) = Inr ()) # evs) =
        map (\<lambda>m. Ev (Scp addr (guestPath m) (hostPath m)) True) (filter (\<lambda>m. \<not> readOnly m) (m # ms))"
      using False evs(2) by simp
    ultimately show ?thesis by blast
  qed
qed

text \<open>
  Claim C7. Write-back attempts one copy, guest path to host path, for every mount
  that is not read-only, in list order, and for no other mount; the outcome of one
  copy (whatever the host makes fail) changes neither the copies attempted after it
  nor the fact that the routine returns normally.
\<close>

theorem syncFilesBack_writes_back_writable_mounts:
  "fst (syncFilesBack e addr ms w) = Inr ()
   \<and> map attempted (new_events w (snd (syncFilesBack e addr ms w))) =
       map (\<lambda>m. Ev (Scp addr (guestPath m) (hostPath m)) True) (filter (\<lambda>m. \<not> readOnly m) ms)"
proof -
  obtain evs where "trace (snd (syncFilesBack e addr ms w)) = trace w @ evs"
    "map attempted evs =
       map (\<lambda>m. Ev (Scp addr (guestPath m) (hostPath m)) True) (filter (\<lambda>m. \<not> readOnly m) ms)"
    using syncFilesBack_trace by blast
  then show ?thesis by (simp add: syncFilesBack_ok)
qed

section \<open>Teardown\<close>

lemma release_resources_ok: "fst (release_resources e vm w) = Inr ()"
  by (simp add: release_resources_def destroyTapDevice_def)

lemma release_resources_trace:
  "map attempted (new_events w (snd (release_resources e vm w))) =
     (if killed (process vm) then [] else [Ev (Kill (pid (process vm))) True])
     @ [Ev (LinkDelete (tapDevice vm)) True, Ev (UnlinkSync (rootfsPath vm)) True,
        Ev (UnlinkSync (socketPath vm)) True]"
  by (simp add: release_resources_def destroyTapDevice_def exec_trace proc_kill_trace
      new_events_def)

lemma release_resources_length:
  "length (trace (snd (release_resources e vm w))) =
     length (trace w) + (if killed (process vm) then 3 else 4)"
  by (simp add: release_resources_def destroyTapDevice_def exec_trace proc_kill_trace)

lemma rel_refl: "cmds_keep C R e \<Longrightarrow> R w w"
  by (auto simp: cmds_keep_def reflp_def)

lemma rel_trans: "cmds_keep C R e \<Longrightarrow> R w w1 \<Longrightarrow> R w1 w2 \<Longrightarrow> R w w2"
  by (auto simp: cmds_keep_def transp_def)

lemma rel_exec: "cmds_keep C R e \<Longrightarrow> C c \<Longrightarrow> R w (snd (exec e c w))"
  by (auto simp: cmds_keep_def)

lemma and_then_rel:
  assumes "cmds_keep C R e" "R w (snd r)" "\<And>a w1. R w1 (snd (k a w1))"
  shows "R w (snd (and_then r k))"
proof (cases r)
  case (Pair x w1)
  show ?thesis
  proof (cases x)
    case (Inl err)
    then show ?thesis using Pair assms(2) by (simp add: and_then_def)
  next
    case (Inr a)
    then have "and_then r k = k a w1" using Pair by (simp add: and_then_def)
    then show ?thesis using assms Pair rel_trans [OF assms(1), of w w1] by simp
  qed
qed

lemma run_all_rel:
  assumes "cmds_keep C R e" "\<forall>c \<in> set cs. C c"
  shows "R w (snd (run_all e cs w))"
  using assms(2)
proof (induction cs arbitrary: w)
  case Nil
  then show ?case using rel_refl [OF assms(1)] by (simp add: run_all.simps)
next
  case (Cons c cs)
  show ?case
    unfolding run_all.simps
    by (rule and_then_rel [OF assms(1)]) (use Cons assms(1) in \<open>auto intro: rel_exec\<close>)
qed

lemma swallow_rel: "R w (snd r) \<Longrightarrow> R w (snd (swallow r))"
  by simp

lemma try_finally_rel:
  assumes "cmds_keep C R e" "R w (snd r)" "\<And>w1. R w1 (snd (fin w1))"
  shows "R w (snd (try_finally r fin))"
proof (cases r)
  case (Pair x w1)
  have "snd (try_finally r fin) = snd (fin w1)"
    using Pair by (auto simp: try_finally_def split: prod.splits sum.splits)
  then show ?thesis using assms Pair rel_trans [OF assms(1), of w w1] by simp
qed

lemma stage_mounts_rel:
  assumes "cmds_keep C R e" "\<And>s. C (Inject mp s)"
  shows "R w (snd (stage_mounts e mp ms w))"
proof (induction ms arbitrary: w)
  case Nil
  then show ?case using rel_refl [OF assms(1)] by simp
next
  case (Cons m ms)
  show ?case
  proof (cases "hostPath m \<in> files w")
    case False
    then show ?thesis using Cons by simp
  next
    case True
    then show ?thesis
      apply simp
      apply (rule and_then_rel [OF assms(1)])
       apply (rule run_all_rel [OF assms(1)])
       apply (simp add: assms(2) copy_in_cmds_def)
      apply (rule Cons)
      done
  qed
qed

lemma inject_all_rel:
  assumes "cmds_keep C R e" "\<And>s. C (Inject mp s)"
  shows "R w (snd (inject_all e mp addr cad ms w))"
proof -
  have ra: "\<And>cs w. \<forall>c \<in> set cs. C c \<Longrightarrow> R w (snd (run_all e cs w))"
    by (rule run_all_rel [OF assms(1)])
  have creds: "\<And>w. R w (snd (if cad \<in> files w
         then run_all e [Inject mp MkdirClaudeDir, Inject mp (CopyClaudeAuth cad),
                         Inject mp ChownClaudeDir] w
         else (Inr (), w)))"
    using ra rel_refl [OF assms(1)] by (simp add: assms(2))
  have gw: "\<And>w. R w (snd (case gatewayKey e of
           Some k \<Rightarrow> if k \<noteq> [] then run_all e [Inject mp (WriteGatewayKey k),
                                   Inject mp ChownGatewayKey, Inject mp ChmodGatewayKey] w
                     else (Inr (), w)
         | None \<Rightarrow> (Inr (), w)))"
    using ra rel_refl [OF assms(1)] by (simp add: assms(2) split: option.splits)
  show ?thesis
    unfolding inject_all_def
    apply (rule and_then_rel [OF assms(1)])
     apply (rule ra, simp add: assms(2))
    apply (rule and_then_rel [OF assms(1)])
     apply (rule creds)
    apply (rule and_then_rel [OF assms(1)])
     apply (rule gw)
    apply (rule and_then_rel [OF assms(1)])
     apply (rule stage_mounts_rel [OF assms])
    apply (rule ra, simp add: assms(2))
    done
qed

lemma host_keeps_cmds: "host_keeps R e \<Longrightarrow> cmds_keep (\<lambda>c. True) R e"
  by (simp add: host_keeps_def)

lemma host_keeps_kill: "host_keeps R e \<Longrightarrow> R w (snd (proc_kill e p w))"
  by (simp add: host_keeps_def)

lemma host_keeps_socket:
  "host_keeps R e \<Longrightarrow> R w (log_event (SocketAppeared s) (w\<lparr> files := insert s (files w) \<rparr>))"
  by (simp add: host_keeps_def)

lemma createTapDevice_rel:
  assumes "host_keeps R e"
  shows "R w (snd (createTapDevice e vid w))"
proof -
  have "snd (createTapDevice e vid w) =
          snd (run_all e [TuntapAdd (tapName vid), LinkSetUp (tapName vid),
                          LinkSetMaster (tapName vid)] w)"
    by (simp add: createTapDevice_def Let_def split: prod.splits sum.splits)
  then show ?thesis
    using run_all_rel [OF host_keeps_cmds [OF assms]] by simp
qed

lemma destroyTapDevice_rel:
  assumes "host_keeps R e"
  shows "R w (snd (destroyTapDevice e tap w))"
  using rel_exec [OF host_keeps_cmds [OF assms]] by (simp add: destroyTapDevice_def)

lemma prepareRootfs_rel:
  assumes "host_keeps R e"
  shows "R w (snd (prepareRootfs e vid addr cad ms w))"
proof -
  note k = host_keeps_cmds [OF assms]
  show ?thesis
    unfolding prepareRootfs_def Let_def
    apply (rule and_then_rel [OF k])
     apply (rule run_all_rel [OF k], simp)
    apply (rule and_then_rel [OF k])
     apply (rule try_finally_rel [OF k])
      apply (rule inject_all_rel [OF k], simp)
     apply (rule run_all_rel [OF k], simp)
    apply (simp add: rel_refl [OF k])
    done
qed

lemma await_socket_rel:
  assumes "host_keeps R e"
  shows "R w (snd (await_socket e sock p polls w))"
proof (induction polls arbitrary: w)
  case Nil
  show ?case
    unfolding await_socket.simps
    by (rule and_then_rel [OF host_keeps_cmds [OF assms]])
       (simp_all add: host_keeps_kill [OF assms] rel_refl [OF host_keeps_cmds [OF assms]])
next
  case (Cons seen rest)
  show ?case
  proof (cases seen)
    case True
    then show ?thesis by (simp add: host_keeps_socket [OF assms])
  next
    case False
    have "R w (snd (and_then (exec e (Sleep 100) w) (\<lambda>_. await_socket e sock p rest)))"
      by (rule and_then_rel [OF host_keeps_cmds [OF assms]])
         (simp_all add: rel_exec [OF host_keeps_cmds [OF assms]] Cons)
    then show ?thesis using False by simp
  qed
qed

lemma startFirecrackerProcess_rel:
  assumes "host_keeps R e"
  shows "R w (snd (startFirecrackerProcess e vid w))"
proof -
  note k = host_keeps_cmds [OF assms]
  show ?thesis
    unfolding startFirecrackerProcess_def Let_def
    apply (rule and_then_rel [OF k])
     apply (simp add: rel_refl [OF k] rel_exec [OF k])
    apply (rule and_then_rel [OF k])
     apply (simp add: rel_exec [OF k])
    apply (rule and_then_rel [OF k])
     apply (rule await_socket_rel [OF assms])
    apply (simp add: rel_refl [OF k])
    done
qed

lemma provision_rel:
  assumes "host_keeps R e"
  shows "R w (snd (provision e gid vid addr cad ms w))"
proof -
  note k = host_keeps_cmds [OF assms]
  show ?thesis
    unfolding provision_def
    apply (rule and_then_rel [OF k])
     apply (rule createTapDevice_rel [OF assms])
    apply (rule and_then_rel [OF k])
     apply (rule prepareRootfs_rel [OF assms])
    apply (rule and_then_rel [OF k])
     apply (rule startFirecrackerProcess_rel [OF assms])
    apply (simp add: rel_refl [OF k] split: prod.splits)
    done
qed

lemma waitForSSH_rel:
  assumes "cmds_keep C R e" "C (SshProbe addr)" "C (Sleep 500)"
  shows "R w (snd (waitForSSH e addr n w))"
proof (induction n arbitrary: w)
  case 0
  then show ?case by (simp add: rel_refl [OF assms(1)])
next
  case (Suc n)
  obtain r w1 where x: "exec e (SshProbe addr) w = (r, w1)" by (cases "exec e (SshProbe addr) w")
  have 1: "R w w1" using rel_exec [OF assms(1,2), of w] x by simp
  show ?case
  proof (cases r)
    case (Inl a)
    have "R w1 (snd (and_then (exec e (Sleep 500) w1) (\<lambda>_. waitForSSH e addr n)))"
      by (rule and_then_rel [OF assms(1)]) (simp_all add: rel_exec [OF assms(1,3)] Suc)
    then show ?thesis using Inl x 1 rel_trans [OF assms(1)] by simp
  next
    case (Inr b)
    then show ?thesis using x 1 by simp
  qed
qed

lemma syncFilesBack_rel:
  assumes "cmds_keep C R e" "\<And>g h. C (Scp addr g h)"
  shows "R w (snd (syncFilesBack e addr ms w))"
proof (induction ms arbitrary: w)
  case Nil
  then show ?case by (simp add: rel_refl [OF assms(1)])
next
  case (Cons m ms)
  show ?case
  proof (cases "readOnly m")
    case True
    then show ?thesis using Cons by simp
  next
    case False
    have "R w (snd (exec e (Scp addr (guestPath m) (hostPath m)) w))"
      by (rule rel_exec [OF assms(1)]) (rule assms(2))
    then show ?thesis using False Cons rel_trans [OF assms(1)] by simp
  qed
qed

lemma configureAndBootVM_rel:
  assumes "cmds_keep C R e" "\<And>p. C (ApiCall sock p)"
  shows "R w (snd (configureAndBootVM e sock w))"
  unfolding configureAndBootVM_def
  by (rule run_all_rel [OF assms(1)]) (simp add: assms(2))

lemma execute_steps_rel:
  assumes "cmds_keep C R e" "\<And>p. C (ApiCall (socketPath vm) p)" "C (SshProbe (ip vm))"
    "\<And>g h. C (Scp (ip vm) g h)" "C (Sleep 500)"
  shows "R w (snd (execute_steps e vm task ms t w))"
  unfolding execute_steps_def
  apply (rule and_then_rel [OF assms(1)])
   apply (rule configureAndBootVM_rel [OF assms(1)], rule assms(2))
  apply (rule and_then_rel [OF assms(1)])
   apply (rule waitForSSH_rel [OF assms(1)], rule assms(3), rule assms(5))
  apply (simp split: sum.splits prod.splits add: rel_refl [OF assms(1)])
  apply (intro allI impI)
  apply (rule and_then_rel [OF assms(1)])
   apply (rule syncFilesBack_rel [OF assms(1)], rule assms(4))
  apply (simp add: rel_refl [OF assms(1)])
  done

lemma release_resources_rel:
  assumes "host_keeps R e"
  shows "R w (snd (release_resources e vm w))"
proof -
  note k = host_keeps_cmds [OF assms]
  have 1: "\<And>w. R w (snd (if \<not> killed (process vm) then proc_kill e (process vm) w
                        else (Inr (process vm), w)))"
    by (simp add: host_keeps_kill [OF assms] rel_refl [OF k])
  have 2: "\<And>c w. R w (snd (exec e c w))" by (simp add: rel_exec [OF k])
  have 3: "\<And>w w1 w2. R w w1 \<Longrightarrow> R w1 w2 \<Longrightarrow> R w w2" by (rule rel_trans [OF k])
  show ?thesis
    unfolding release_resources_def destroyTapDevice_def and_then_swallow swallow_simps
    apply (rule 3 [OF 1])
    apply (rule 3 [OF 2])
    apply (rule 3 [OF 2])
    apply (rule 2)
    done
qed

lemma cleanup_partial_rel:
  assumes "host_keeps R e"
  shows "R w (snd (cleanup_partial e vid w))"
proof -
  note k = host_keeps_cmds [OF assms]
  have 2: "\<And>c w. R w (snd (exec e c w))" by (simp add: rel_exec [OF k])
  have 3: "\<And>w w1 w2. R w w1 \<Longrightarrow> R w1 w2 \<Longrightarrow> R w w2" by (rule rel_trans [OF k])
  show ?thesis
    unfolding cleanup_partial_def destroyTapDevice_def and_then_swallow swallow_simps
    apply (rule 3 [OF 2])
    apply (rule 3 [OF 2])
    apply (rule 2)
    done
qed

lemma exec_module_state:
  "nextVmId (snd (exec e c w)) = nextVmId w" "activeVMs (snd (exec e c w)) = activeVMs w"
  by (cases c; simp add: exec_def Let_def log_event_def split: option.splits)+

lemma proc_kill_module_state:
  "nextVmId (snd (proc_kill e p w)) = nextVmId w"
  "activeVMs (snd (proc_kill e p w)) = activeVMs w"
  by (simp_all add: proc_kill_def Let_def log_event_def split: option.splits)

lemma host_only_refl: "host_only w w"
  by (simp add: host_only_def)

lemma host_only_trans: "host_only w w1 \<Longrightarrow> host_only w1 w2 \<Longrightarrow> host_only w w2"
  by (auto simp: host_only_def)

lemma host_keeps_host_only: "host_keeps host_only e"
  unfolding host_keeps_def cmds_keep_def
proof (intro conjI allI impI)
  show "reflp host_only" by (simp add: reflp_def host_only_refl)
  show "transp host_only" unfolding transp_def using host_only_trans by blast
  show "host_only w (snd (exec e c w))" for c w
    by (simp add: host_only_def exec_module_state exec_trace)
  show "host_only w (snd (proc_kill e p w))" for p w
    by (simp add: host_only_def proc_kill_module_state proc_kill_trace)
  show "host_only w (log_event (SocketAppeared s) (w\<lparr>files := insert s (files w)\<rparr>))" for s w
    by (simp add: host_only_def log_event_def)
qed

lemma cleanup_partial_ok: "fst (cleanup_partial e vid w) = Inr ()"
  by (simp add: cleanup_partial_def destroyTapDevice_def)

lemma cleanupVM_ok: "fst (cleanupVM e vm w) = Inr ()"
  by (simp add: cleanupVM_def and_then_Inr [OF release_resources_ok])

lemma cleanupVM_world:
  "snd (cleanupVM e vm w) = unregister (groupId vm) (snd (release_resources e vm w))"
  by (simp add: cleanupVM_def and_then_Inr [OF release_resources_ok])

text \<open>
  Claim C4. Teardown of a sandbox attempts, in this order, the kill of the hypervisor
  process (unless the handle is already marked killed), the deletion of the network
  device, the deletion of the disk image, the deletion of the control socket, and then
  removes the owner from the live map. This holds whatever the host makes fail and
  whatever is already gone, and teardown returns normally in every case.
\<close>

theorem cleanupVM_steps_in_order:
  "fst (cleanupVM e vm w) = Inr ()
   \<and> map attempted (new_events w (snd (cleanupVM e vm w))) =
       (if killed (process vm) then [] else [Ev (Kill (pid (process vm))) True])
       @ [Ev (LinkDelete (tapDevice vm)) True, Ev (UnlinkSync (rootfsPath vm)) True,
          Ev (UnlinkSync (socketPath vm)) True, Unregistered (groupId vm)]
   \<and> activeVMs (snd (cleanupVM e vm w)) (groupId vm) = None"
proof -
  let ?w1 = "snd (release_resources e vm w)"
  have len: "length (trace w) \<le> length (trace ?w1)"
    by (simp add: release_resources_length)
  have "new_events w (unregister (groupId vm) ?w1) = new_events w ?w1 @ [Unregistered (groupId vm)]"
    using len by (simp add: new_events_def unregister_def log_event_def)
  then show ?thesis
    by (simp add: cleanupVM_ok cleanupVM_world release_resources_trace)
       (simp add: unregister_def log_event_def)
qed

lemma allocateVm_counter: "nextVmId (snd (allocateVm g w)) = nextVmId w + 1"
  by (simp add: allocateVm_def Let_def)

lemma allocateVm_full:
  "253 < nextVmId w \<Longrightarrow> fst (allocateVm g w) = Inl MaxVmCount"
  by (simp add: allocateVm_def Let_def)

lemma unregister_nextVmId: "nextVmId (unregister g w) = nextVmId w"
  by (simp add: unregister_def log_event_def)

lemma register_nextVmId: "nextVmId (register vm w) = nextVmId w"
  by (simp add: register_def log_event_def)

lemma host_only_nextVmId: "host_only w w' \<Longrightarrow> nextVmId w' = nextVmId w"
  by (simp add: host_only_def)

lemma release_resources_host_only: "host_only w (snd (release_resources e vm w))"
  by (rule release_resources_rel [OF host_keeps_host_only])

lemma cleanupVM_nextVmId: "nextVmId (snd (cleanupVM e vm w)) = nextVmId w"
  by (simp add: cleanupVM_world unregister_nextVmId
      host_only_nextVmId [OF release_resources_host_only])

lemma cleanup_partial_host_only: "host_only w (snd (cleanup_partial e vid w))"
  by (rule cleanup_partial_rel [OF host_keeps_host_only])

lemma provision_host_only: "host_only w (snd (provision e gid vid addr cad ms w))"
  by (rule provision_rel [OF host_keeps_host_only])

lemma execute_steps_host_only: "host_only w (snd (execute_steps e vm task ms t w))"
  by (rule execute_steps_rel [OF host_keeps_cmds [OF host_keeps_host_only]]) simp_all

lemma try_finally_ok:
  assumes "\<And>w. fst (fin w) = Inr ()"
  shows "try_finally (r, w) fin = (r, snd (fin w))"
proof -
  obtain w' where "fin w = (Inr (), w')"
    using assms [of w] by (cases "fin w") auto
  then show ?thesis by (simp add: try_finally_def)
qed

lemma abandon_ok: "fst (abandon e g vid w) = Inr ()"
  by (simp add: abandon_def and_then_Inr [OF cleanup_partial_ok])

lemma abandon_world:
  "snd (abandon e g vid w) = log_event (Abandoned g vid) (snd (cleanup_partial e vid w))"
  by (simp add: abandon_def and_then_Inr [OF cleanup_partial_ok])

lemma catch_error_snd: "snd (catch_error e r) = snd r"
  by (cases r) (auto simp: catch_error_def split: sum.splits)

lemma runTask_admitted_full:
  "253 < nextVmId w \<Longrightarrow> fst (runTask_admitted e g t ms cad tmo w) = Inl MaxVmCount"
  by (simp add: runTask_admitted_def allocateVm_def Let_def)

lemma runTask_admitted_counter:
  "nextVmId (snd (runTask_admitted e g t ms cad tmo w)) = nextVmId w + 1"
proof (cases "253 < nextVmId w")
  case True
  then show ?thesis by (simp add: runTask_admitted_def allocateVm_def Let_def)
next
  case False
  let ?vid = "nextVmId w"
  let ?addr = "IPv4 172 16 0 (nextVmId w + 1)"
  let ?w1 = "log_event (Allocated g ?vid) (w\<lparr>nextVmId := nextVmId w + 1\<rparr>)"
  have n1: "nextVmId ?w1 = nextVmId w + 1" by (simp add: log_event_def)
  obtain r w2 where p: "provision e g ?vid ?addr cad ms ?w1 = (r, w2)"
    by (cases "provision e g ?vid ?addr cad ms ?w1")
  have n2: "nextVmId w2 = nextVmId w + 1"
    using host_only_nextVmId [OF provision_host_only [of ?w1 e g ?vid ?addr cad ms]] p n1
    by simp
  show ?thesis
  proof (cases r)
    case (Inl x)
    have "snd (runTask_admitted e g t ms cad tmo w) = snd (abandon e g ?vid w2)"
      using False p Inl
      by (simp add: runTask_admitted_def allocateVm_def Let_def catch_error_def
          try_finally_ok [of "abandon e g ?vid", OF abandon_ok])
    then show ?thesis
      using host_only_nextVmId [OF cleanup_partial_host_only [of w2 e ?vid]] n2
      by (simp add: abandon_world log_event_def)
  next
    case (Inr vm)
    obtain r3 w3 where x: "catch_error e (execute_steps e vm t ms tmo (register vm w2)) = (r3, w3)"
      by (cases "catch_error e (execute_steps e vm t ms tmo (register vm w2))")
    have "w3 = snd (execute_steps e vm t ms tmo (register vm w2))"
      using x catch_error_snd [of e "execute_steps e vm t ms tmo (register vm w2)"] by simp
    then have n3: "nextVmId w3 = nextVmId w + 1"
      using host_only_nextVmId [OF execute_steps_host_only [of "register vm w2" e vm t ms tmo]] n2
      by (simp add: register_nextVmId)
    have "snd (runTask_admitted e g t ms cad tmo w) = snd (cleanupVM e vm w3)"
      using False p Inr x
      by (simp add: runTask_admitted_def allocateVm_def Let_def
          try_finally_ok [of "cleanupVM e vm", OF cleanupVM_ok])
    then show ?thesis using n3 by (simp add: cleanupVM_nextVmId)
  qed
qed

lemma run_calls_counter: "nextVmId (run_calls cs w) = nextVmId w + length cs"
  by (induction cs arbitrary: w) (simp_all add: run_call_def runTask_admitted_counter)

text \<open>
  Claim C10. Sandbox ids are never reused: every allocator call, the failing one
  included, moves the counter up by one, teardown leaves the counter as it is, and so
  does every call of runTask apart from its one allocation. Hence once 253 calls have
  been made since the counter stood at 1, every further call fails with the capacity
  error, whatever the live map holds.
\<close>

theorem ids_never_reused:
  "nextVmId (snd (allocateVm g w)) = nextVmId w + 1
   \<and> nextVmId (snd (cleanupVM e vm w)) = nextVmId w
   \<and> nextVmId (snd (run_call c w)) = nextVmId w + 1
   \<and> (nextVmId w = 1 \<and> 253 \<le> length cs \<longrightarrow>
        fst (run_call c (run_calls cs w)) = Inl MaxVmCount)"
proof -
  have "253 < nextVmId (run_calls cs w)" if "nextVmId w = 1" "253 \<le> length cs"
    using that by (simp add: run_calls_counter)
  then show ?thesis
    by (simp add: allocateVm_counter cleanupVM_nextVmId run_call_def runTask_admitted_counter
        runTask_admitted_full)
qed

theorem ids_never_reused_witness:
  "nextVmId initial_world = 1 \<and> 253 \<le> length (replicate 253 sample_call)
   \<and> fst (run_call sample_call (run_calls (replicate 253 sample_call) initial_world))
       = Inl MaxVmCount"
  using ids_never_reused [of "''alice''" initial_world good_env sample_vm sample_call
      "replicate 253 sample_call"]
  by (simp add: initial_world_def)

text \<open>
  What the bridge does with the flag. When the error object of the task run carries
  a true \<^verbatim>\<open>killed\<close> flag, the bridge throws the timeout error and returns no
  (stdout, exitCode) pair; when the task ran to its end with a non-zero status, the
  bridge returns that status with the captured output.
\<close>

lemma executeTaskViaSSH_by_killed_flag:
  "uploadResult e = None \<Longrightarrow> taskRunResult e = Inl err \<Longrightarrow>
   (err_killed err = Some True \<longrightarrow> executeTaskViaSSH e addr task t = Inl (TaskTimedOut t))
   \<and> (err_killed err \<noteq> Some True \<and> err_status err = Some st \<longrightarrow>
        executeTaskViaSSH e addr task t = Inr (err_stdout err @ [CHR 0x0A] @ err_stderr err, st))"
  by (simp add: executeTaskViaSSH_def on_exec_error_def)

text \<open>
  Claim C6 at a task that exceeds its timeout. The error \<^verbatim>\<open>execSync\<close> throws then
  has no \<^verbatim>\<open>killed\<close> property and a null status, so the test \<^verbatim>\<open>err.killed\<close> is
  false and the bridge returns an ordinary result with exit code 1: the same result
  as for a task that ran to its end and exited with status 1 after the same output.
\<close>

theorem executeTaskViaSSH_timeout_reported_as_exit_1:
  "executeTaskViaSSH (good_env\<lparr> taskRunResult := Inl (execSync_timeout_error ''partial'' '''') \<rparr>)
       (IPv4 172 16 0 2) ''sleep 60'' 5000
     = Inr (''partial'' @ [CHR 0x0A], 1)
   \<and> executeTaskViaSSH (good_env\<lparr> taskRunResult := Inl (execSync_exit_error 1 ''partial'' '''') \<rparr>)
       (IPv4 172 16 0 2) ''sleep 60'' 5000
     = Inr (''partial'' @ [CHR 0x0A], 1)"
  by (simp add: executeTaskViaSSH_def on_exec_error_def good_env_def
      execSync_timeout_error_def execSync_exit_error_def)










lemma show_nat_1: "show_nat 1 = ''1''" "show_nat (Suc 0) = ''1''"
  by code_simp+

text \<open>A run on a host where everything works, with a mount whose host path is
  missing: the run completes with the task's output and exit code 0.\<close>

lemma run_with_missing_mount_completes:
  "fst (run_call (sample_call\<lparr> call_mounts := [missing_mount] \<rparr>) initial_world)
    = Inr \<lparr> output_text = ''ok'', filesChanged = [], exitCode = 0, durationMs = 1200 \<rparr>"
  by (simp add: run_call_def runTask_admitted_def allocateVm_def sample_call_def good_env_def
      initial_world_def missing_mount_def provision_def createTapDevice_def prepareRootfs_def
      startFirecrackerProcess_def inject_all_def execute_steps_def configureAndBootVM_def
      executeTaskViaSSH_def getChangedFiles_def cleanupVM_def release_resources_def
      destroyTapDevice_def unregister_def register_def log_event_def exec_def proc_kill_def
      and_then_def try_finally_def catch_error_def swallow_def run_all.simps Let_def
      tapName_def rootfsPathOf_def mountPointOf_def socketPathOf_def show_nat_1
      numeral_3_eq_3)

lemma runTask_admitted_result:
  assumes "nextVmId w \<le> 253"
  shows "fst (runTask_admitted e g t ms cad tmo w) =
     (case provision e g (nextVmId w) (IPv4 172 16 0 (nextVmId w + 1)) cad ms
             (log_event (Allocated g (nextVmId w)) (w\<lparr>nextVmId := nextVmId w + 1\<rparr>)) of
        (Inl x, w2) \<Rightarrow> Inr (error_result e x)
      | (Inr vm, w2) \<Rightarrow>
          (case fst (execute_steps e vm t ms tmo (register vm w2)) of
             Inl x \<Rightarrow> Inr (error_result e x)
           | Inr res \<Rightarrow> Inr res))"
proof -
  let ?w1 = "log_event (Allocated g (nextVmId w)) (w\<lparr>nextVmId := nextVmId w + 1\<rparr>)"
  obtain r w2 where p: "provision e g (nextVmId w) (IPv4 172 16 0 (nextVmId w + 1)) cad ms ?w1 = (r, w2)"
    by (cases "provision e g (nextVmId w) (IPv4 172 16 0 (nextVmId w + 1)) cad ms ?w1")
  show ?thesis
  proof (cases r)
    case (Inl x)
    then show ?thesis
      using assms p
      by (simp add: runTask_admitted_def allocateVm_def Let_def catch_error_def
          try_finally_ok [of "abandon e g (nextVmId w)", OF abandon_ok])
  next
    case (Inr vm)
    obtain r3 w3 where x: "execute_steps e vm t ms tmo (register vm w2) = (r3, w3)"
      by (cases "execute_steps e vm t ms tmo (register vm w2)")
    show ?thesis
      using assms p Inr x
      by (cases r3)
         (simp_all add: runTask_admitted_def allocateVm_def Let_def catch_error_def
          try_finally_ok [of "cleanupVM e vm", OF cleanupVM_ok])
  qed
qed

text \<open>
  Claim C1, as the code has it. When the allocator grants an id (counter at most 253),
  runTask returns a TaskResult and throws nothing, whichever step of device creation,
  staging, boot, readiness wait or execution throws; and when a step throws error
  \<open>x\<close>, the TaskResult has exit code 1, no changed files, and the output
  \<^verbatim>\<open>Error: \<close> followed by the message of \<open>x\<close>.
\<close>

theorem runTask_returns_result_once_allocated:
  assumes "nextVmId w \<le> 253"
  shows "\<exists>r. fst (runTask_admitted e g t ms cad tmo w) = Inr r
     \<and> (\<forall>x. thrown_in_try e g t ms cad tmo w = Some x \<longrightarrow>
           r = error_result e x \<and> exitCode r = 1 \<and> exitCode r \<noteq> 0
           \<and> output_text r = ''Error: '' @ message x)"
  using assms
  by (auto simp: runTask_admitted_result thrown_in_try_def allocateVm_def Let_def
      error_result_def split: prod.splits sum.splits)

text \<open>Claim C1 as stated fails for the capacity error: the 254th call throws it to
  the caller.\<close>

theorem runTask_capacity_error_is_thrown:
  "fst (run_call late_call (run_calls (replicate 253 sample_call) initial_world))
     = Inl MaxVmCount"
proof -
  have "nextVmId (run_calls (replicate 253 sample_call) initial_world) = 254"
    by (simp add: run_calls_counter initial_world_def)
  then show ?thesis
    by (simp add: run_call_def runTask_admitted_full)
qed

lemma thrown_no_tap:
  "thrown_in_try no_tap_env ''alice'' ''echo ok'' [] ''/creds/alice'' 5000 initial_world
     = Some (TapCreateFailed ''tap1'' ''Error: Command failed: ip tuntap'')"
  by (simp add: thrown_in_try_def allocateVm_def no_tap_env_def good_env_def
      initial_world_def provision_def createTapDevice_def log_event_def exec_def
      and_then_def run_all.simps Let_def tapName_def show_nat_1 error_to_string_def)

theorem runTask_returns_result_once_allocated_witness:
  "nextVmId initial_world \<le> 253
   \<and> fst (runTask_admitted no_tap_env ''alice'' ''echo ok'' [] ''/creds/alice'' 5000 initial_world)
      = Inr \<lparr> output_text =
                ''Error: [FC] Failed to create TAP device tap1: Error: Command failed: ip tuntap'',
              filesChanged = [], exitCode = 1, durationMs = 1200 \<rparr>"
proof -
  have h: "nextVmId initial_world \<le> 253" by (simp add: initial_world_def)
  from runTask_returns_result_once_allocated [OF h, of no_tap_env "''alice''" "''echo ok''" "[]"
      "''/creds/alice''" 5000]
  obtain r where
    r: "fst (runTask_admitted no_tap_env ''alice'' ''echo ok'' [] ''/creds/alice'' 5000 initial_world)
          = Inr r"
    and x: "\<forall>x. thrown_in_try no_tap_env ''alice'' ''echo ok'' [] ''/creds/alice'' 5000 initial_world
              = Some x \<longrightarrow> r = error_result no_tap_env x"
    by blast
  have "r = error_result no_tap_env (TapCreateFailed ''tap1'' ''Error: Command failed: ip tuntap'')"
    using x thrown_no_tap by simp
  then show ?thesis
    using h r by (simp add: error_result_def no_tap_env_def good_env_def)
qed

lemma path_join_examples:
  "guestTargetOf ''/tmp/nanoclaw-mount-1'' ''/workspace/group'' = ''/tmp/nanoclaw-mount-1/workspace/group''"
  "guestTargetOf ''/tmp/nanoclaw-mount-1'' ''/a/../b'' = ''/tmp/nanoclaw-mount-1/b''"
  "guestTargetOf ''/tmp/nanoclaw-mount-1'' ''/a//b/'' = ''/tmp/nanoclaw-mount-1/a/b/''"
  "guestTargetOf ''/tmp/nanoclaw-mount-1'' ''/'' = ''/tmp/nanoclaw-mount-1''"
  "guestTargetOf ''/tmp/nanoclaw-mount-1'' ''/../../etc'' = ''/etc''"
  by (simp_all add: guestTargetOf_def path_join_def normalize_abs_def)

lemma exec_inert_same_host: "inert c \<Longrightarrow> same_host w (snd (exec e c w))"
  by (cases c) (auto simp: same_host_def exec_def Let_def log_event_def split: option.splits)

lemma cmds_keep_same_host: "cmds_keep inert same_host e"
  by (auto simp: cmds_keep_def reflp_def transp_def exec_inert_same_host)
     (auto simp: same_host_def)

lemma inject_all_same_host: "same_host w (snd (inject_all e mp addr cad ms w))"
  by (rule inject_all_rel [OF cmds_keep_same_host]) simp

lemma setup_mounts:
  assumes "fst (run_all e [CopyBaseImage r, MkdirSync mp, MountLoop r mp] w) = Inr ()"
  shows "mp \<in> loopMounts (snd (run_all e [CopyBaseImage r, MkdirSync mp, MountLoop r mp] w))"
  using assms
  by (auto simp: run_all.simps exec_def and_then_def log_event_def Let_def
      split: option.splits if_splits)

lemma try_finally_world: "snd (try_finally r fin) = snd (fin (snd r))"
  by (cases r) (auto simp: try_finally_def split: prod.splits sum.splits)

lemma and_then_keep_world: "snd (and_then r (\<lambda>a w. (f a, w))) = snd r"
  by (cases r) (auto simp: and_then_def split: sum.splits)

lemma prepareRootfs_after_mount:
  assumes "fst (run_all e [CopyBaseImage (rootfsPathOf vid), MkdirSync (mountPointOf vid),
                          MountLoop (rootfsPathOf vid) (mountPointOf vid)] w) = Inr ()"
  shows "prepareRootfs e vid addr cad ms w =
     and_then
       (try_finally
          (inject_all e (mountPointOf vid) addr cad ms
             (snd (run_all e [CopyBaseImage (rootfsPathOf vid), MkdirSync (mountPointOf vid),
                              MountLoop (rootfsPathOf vid) (mountPointOf vid)] w)))
          (run_all e [Umount (mountPointOf vid), RmSync (mountPointOf vid)]))
       (\<lambda>_ w. (Inr (rootfsPathOf vid), w))"
  using assms
  by (simp add: prepareRootfs_def Let_def and_then_Inr [OF assms])

lemma unmount_step:
  assumes "mp \<in> loopMounts w"
  shows "take 1 (map attempted (new_events w (snd (run_all e [Umount mp, RmSync mp] w))))
           = [Ev (Umount mp) True]"
    and "fails e (calls w) (Umount mp) = None \<Longrightarrow>
           mp \<notin> loopMounts (snd (run_all e [Umount mp, RmSync mp] w))
           \<and> map attempted (new_events w (snd (run_all e [Umount mp, RmSync mp] w)))
               = [Ev (Umount mp) True, Ev (RmSync mp) True]"
    and "fails e (calls w) (Umount mp) = None \<Longrightarrow> fails e (calls w + 1) (RmSync mp) = None \<Longrightarrow>
           mp \<notin> files (snd (run_all e [Umount mp, RmSync mp] w))
           \<and> fst (run_all e [Umount mp, RmSync mp] w) = Inr ()"
  using assms
  by (auto simp: run_all.simps exec_def and_then_def log_event_def Let_def new_events_def
      split: option.splits)

text \<open>
  Claim C8, as the code has it. Once the private image has been copied and
  loop-mounted, the unmount is attempted right after the injection on every exit of
  the injection, whether it completed or any of its steps threw. When that unmount
  does not throw, the image is not left mounted and the removal of the scratch
  mount point is attempted next; when the removal does not throw either, the scratch
  mount point is gone and the outcome of staging is the error of the failed
  injection, or the image path if the injection completed.
\<close>

theorem prepareRootfs_unmount_attempted_on_every_exit:
  assumes "fst (run_all e [CopyBaseImage (rootfsPathOf vid), MkdirSync (mountPointOf vid),
                          MountLoop (rootfsPathOf vid) (mountPointOf vid)] w) = Inr ()"
    and "w4 = snd (inject_all e (mountPointOf vid) addr cad ms
               (snd (run_all e [CopyBaseImage (rootfsPathOf vid), MkdirSync (mountPointOf vid),
                                MountLoop (rootfsPathOf vid) (mountPointOf vid)] w)))"
  shows "take 1 (map attempted (new_events w4 (snd (prepareRootfs e vid addr cad ms w))))
           = [Ev (Umount (mountPointOf vid)) True]
    \<and> (fails e (calls w4) (Umount (mountPointOf vid)) = None \<longrightarrow>
          mountPointOf vid \<notin> loopMounts (snd (prepareRootfs e vid addr cad ms w))
          \<and> map attempted (new_events w4 (snd (prepareRootfs e vid addr cad ms w)))
              = [Ev (Umount (mountPointOf vid)) True, Ev (RmSync (mountPointOf vid)) True])
    \<and> (fails e (calls w4) (Umount (mountPointOf vid)) = None
         \<and> fails e (calls w4 + 1) (RmSync (mountPointOf vid)) = None \<longrightarrow>
          mountPointOf vid \<notin> files (snd (prepareRootfs e vid addr cad ms w))
          \<and> fst (prepareRootfs e vid addr cad ms w) =
              (case fst (inject_all e (mountPointOf vid) addr cad ms
                   (snd (run_all e [CopyBaseImage (rootfsPathOf vid), MkdirSync (mountPointOf vid),
                                    MountLoop (rootfsPathOf vid) (mountPointOf vid)] w))) of
                 Inl x \<Rightarrow> Inl x
               | Inr u \<Rightarrow> Inr (rootfsPathOf vid)))"
proof -
  let ?mp = "mountPointOf vid"
  let ?w3 = "snd (run_all e [CopyBaseImage (rootfsPathOf vid), MkdirSync ?mp,
                             MountLoop (rootfsPathOf vid) ?mp] w)"
  let ?fin = "run_all e [Umount ?mp, RmSync ?mp]"
  have m3: "?mp \<in> loopMounts ?w3" by (rule setup_mounts [OF assms(1)])
  have m4: "?mp \<in> loopMounts w4"
    using inject_all_same_host [of ?w3 e ?mp addr cad ms] m3 assms(2) by (simp add: same_host_def)
  have w': "snd (prepareRootfs e vid addr cad ms w) = snd (?fin w4)"
    unfolding prepareRootfs_after_mount [OF assms(1)] and_then_keep_world try_finally_world
    using assms(2) by simp
  have res: "fst (prepareRootfs e vid addr cad ms w) =
      (case fst (inject_all e ?mp addr cad ms ?w3) of Inl x \<Rightarrow> Inl x | Inr u \<Rightarrow> Inr (rootfsPathOf vid))"
    if fin_ok: "fst (?fin w4) = Inr ()"
  proof -
    obtain r where i: "inject_all e ?mp addr cad ms ?w3 = (r, w4)"
      using assms(2) by (cases "inject_all e ?mp addr cad ms ?w3") auto
    obtain w5 where f: "?fin w4 = (Inr (), w5)" using fin_ok by (cases "?fin w4") auto
    show ?thesis
      unfolding prepareRootfs_after_mount [OF assms(1)]
      using i f by (cases r) (simp_all add: try_finally_def and_then_def)
  qed
  show ?thesis
    unfolding w'
    using unmount_step [OF m4, of e] res by simp
qed

text \<open>Claim C8 as stated fails when the unmount itself throws: after a failed
  injection step the unmount is attempted and fails, the removal of the scratch
  mount point is never attempted, and staging ends with the image still mounted.\<close>

theorem prepareRootfs_leaves_image_mounted_when_umount_throws:
  "new_events initial_world
     (snd (prepareRootfs stuck_mount_env 1 (IPv4 172 16 0 2) ''/creds/alice'' [] initial_world))
   = [Ev (CopyBaseImage ''/tmp/nanoclaw-vm-1.ext4'') True,
      Ev (MkdirSync ''/tmp/nanoclaw-mount-1'') True,
      Ev (MountLoop ''/tmp/nanoclaw-vm-1.ext4'' ''/tmp/nanoclaw-mount-1'') True,
      Ev (Inject ''/tmp/nanoclaw-mount-1'' MkdirSshDir) True,
      Ev (Inject ''/tmp/nanoclaw-mount-1'' ReadPubKey) False,
      Ev (Umount ''/tmp/nanoclaw-mount-1'') False]
   \<and> ''/tmp/nanoclaw-mount-1'' \<in> loopMounts
        (snd (prepareRootfs stuck_mount_env 1 (IPv4 172 16 0 2) ''/creds/alice'' [] initial_world))
   \<and> ''/tmp/nanoclaw-mount-1'' \<in> files
        (snd (prepareRootfs stuck_mount_env 1 (IPv4 172 16 0 2) ''/creds/alice'' [] initial_world))"
  by (simp add: new_events_def prepareRootfs_def inject_all_def try_finally_def run_all.simps
      exec_def and_then_def log_event_def Let_def stuck_mount_env_def good_env_def
      initial_world_def rootfsPathOf_def mountPointOf_def show_nat_1)

theorem prepareRootfs_unmount_attempted_on_every_exit_witness:
  "fst (run_all no_pubkey_env [CopyBaseImage (rootfsPathOf 1), MkdirSync (mountPointOf 1),
                               MountLoop (rootfsPathOf 1) (mountPointOf 1)] initial_world) = Inr ()
   \<and> fst (inject_all no_pubkey_env (mountPointOf 1) (IPv4 172 16 0 2) ''/creds/alice'' []
            (snd (run_all no_pubkey_env [CopyBaseImage (rootfsPathOf 1), MkdirSync (mountPointOf 1),
                    MountLoop (rootfsPathOf 1) (mountPointOf 1)] initial_world)))
       = Inl (ExecError ''ENOENT: no such file'')
   \<and> mountPointOf 1 \<notin> loopMounts (snd (prepareRootfs no_pubkey_env 1 (IPv4 172 16 0 2)
                                            ''/creds/alice'' [] initial_world))
   \<and> mountPointOf 1 \<notin> files (snd (prepareRootfs no_pubkey_env 1 (IPv4 172 16 0 2)
                                       ''/creds/alice'' [] initial_world))
   \<and> fst (prepareRootfs no_pubkey_env 1 (IPv4 172 16 0 2) ''/creds/alice'' [] initial_world)
       = Inl (ExecError ''ENOENT: no such file'')"
proof -
  let ?w3 = "snd (run_all no_pubkey_env [CopyBaseImage (rootfsPathOf 1), MkdirSync (mountPointOf 1),
                    MountLoop (rootfsPathOf 1) (mountPointOf 1)] initial_world)"
  let ?w4 = "snd (inject_all no_pubkey_env (mountPointOf 1) (IPv4 172 16 0 2) ''/creds/alice'' [] ?w3)"
  have h: "fst (run_all no_pubkey_env [CopyBaseImage (rootfsPathOf 1), MkdirSync (mountPointOf 1),
                 MountLoop (rootfsPathOf 1) (mountPointOf 1)] initial_world) = Inr ()"
    by (simp add: run_all.simps exec_def and_then_def log_event_def Let_def no_pubkey_env_def
        good_env_def initial_world_def rootfsPathOf_def mountPointOf_def show_nat_1)
  have i: "fst (inject_all no_pubkey_env (mountPointOf 1) (IPv4 172 16 0 2) ''/creds/alice'' [] ?w3)
       = Inl (ExecError ''ENOENT: no such file'')"
    by (simp add: inject_all_def run_all.simps exec_def
        and_then_def log_event_def Let_def no_pubkey_env_def good_env_def initial_world_def
        rootfsPathOf_def mountPointOf_def show_nat_1)
  have u: "fails no_pubkey_env n (Umount (mountPointOf 1)) = None"
    "fails no_pubkey_env n (RmSync (mountPointOf 1)) = None" for n
    by (simp_all add: no_pubkey_env_def good_env_def)
  show ?thesis
    using prepareRootfs_unmount_attempted_on_every_exit [OF h refl,
        of "IPv4 172 16 0 2" "''/creds/alice''" "[]"] h i u
    by simp
qed

lemma host_releases_good_env: "host_releases good_env"
  by (simp add: host_releases_def good_env_def)





lemma is_ledger_False [simp]: "\<not> is_ledger vid p (Ev c False)"
  by (auto simp: is_ledger_def tap_acquired_def tap_released_def image_acquired_def
      image_released_def socket_acquired_def socket_released_def proc_acquired_def
      proc_released_def)

lemma is_ledger_inert [simp]: "inert c \<Longrightarrow> \<not> is_ledger vid p (Ev c b)"
  by (cases c) (auto simp: is_ledger_def tap_acquired_def tap_released_def image_acquired_def
      image_released_def socket_acquired_def socket_released_def proc_acquired_def
      proc_released_def)

lemma rv_log_fail [simp]:
  "rv vid p (log_event (Ev c False) (w\<lparr> calls := n \<rparr>)) = rv vid p w"
  by (simp add: rv_def led_def log_event_def)



lemmas ledger_defs = is_ledger_def tap_acquired_def tap_released_def image_acquired_def
  image_released_def socket_acquired_def socket_released_def proc_acquired_def
  proc_released_def







lemma and_then_fst_Inr:
  "fst (and_then r k) = Inr b \<Longrightarrow> \<exists>a. fst r = Inr a \<and> fst (k a (snd r)) = Inr b"
  by (cases r) (auto simp: and_then_def split: sum.splits)
















lemma runTask_admitted_world:
  "snd (runTask_admitted e g t ms cad tmo w) =
     (if 253 < nextVmId w then w\<lparr>nextVmId := nextVmId w + 1\<rparr>
      else case provision e g (nextVmId w) (IPv4 172 16 0 (nextVmId w + 1)) cad ms
                  (log_event (Allocated g (nextVmId w)) (w\<lparr>nextVmId := nextVmId w + 1\<rparr>)) of
             (Inl x, w2) \<Rightarrow>
               log_event (Abandoned g (nextVmId w)) (snd (cleanup_partial e (nextVmId w) w2))
           | (Inr vm, w2) \<Rightarrow>
               snd (cleanupVM e vm (snd (execute_steps e vm t ms tmo (register vm w2)))))"
proof (cases "253 < nextVmId w")
  case True
  then show ?thesis by (simp add: runTask_admitted_def allocateVm_def Let_def)
next
  case False
  let ?w1 = "log_event (Allocated g (nextVmId w)) (w\<lparr>nextVmId := nextVmId w + 1\<rparr>)"
  obtain r w2 where p: "provision e g (nextVmId w) (IPv4 172 16 0 (nextVmId w + 1)) cad ms ?w1 = (r, w2)"
    by (cases "provision e g (nextVmId w) (IPv4 172 16 0 (nextVmId w + 1)) cad ms ?w1")
  show ?thesis
  proof (cases r)
    case (Inl x)
    then show ?thesis
      using False p
      by (simp add: runTask_admitted_def allocateVm_def Let_def catch_error_def
          try_finally_ok [of "abandon e g (nextVmId w)", OF abandon_ok] abandon_world)
  next
    case (Inr vm)
    obtain r3 w3 where x: "execute_steps e vm t ms tmo (register vm w2) = (r3, w3)"
      by (cases "execute_steps e vm t ms tmo (register vm w2)")
    show ?thesis
      using False p Inr x
      by (cases r3)
         (simp_all add: runTask_admitted_def allocateVm_def Let_def catch_error_def
          try_finally_ok [of "cleanupVM e vm", OF cleanupVM_ok])
  qed
qed

lemma rv_module_steps [simp]:
  "rv vid p (register vm w) = rv vid p w"
  "rv vid p (unregister g w) = rv vid p w"
  "rv vid p (log_event (Allocated g n) (w\<lparr>nextVmId := m\<rparr>)) = rv vid p w"
  "rv vid p (log_event (Abandoned g n) w) = rv vid p w"
  "rv vid p (w\<lparr>nextVmId := m\<rparr>) = rv vid p w"
  by (simp_all add: rv_def led_def register_def unregister_def log_event_def ledger_defs)















lemmas run_defs = runTask_admitted_def allocateVm_def provision_def createTapDevice_def
  prepareRootfs_def startFirecrackerProcess_def inject_all_def execute_steps_def
  configureAndBootVM_def executeTaskViaSSH_def getChangedFiles_def cleanupVM_def
  release_resources_def cleanup_partial_def abandon_def destroyTapDevice_def unregister_def
  register_def log_event_def exec_def proc_kill_def and_then_def try_finally_def
  catch_error_def swallow_def error_result_def run_all.simps Let_def tapName_def
  rootfsPathOf_def mountPointOf_def socketPathOf_def show_nat_1 numeral_3_eq_3


text \<open>The path on which the hypervisor process is not given back: the first poll
  sees no socket, the sleep that follows throws, the error leaves
  \<^verbatim>\<open>startFirecrackerProcess\<close> before \<^verbatim>\<open>vm\<close> is set, and the \<^verbatim>\<open>else\<close> branch of the
  \<^verbatim>\<open>finally\<close> releases device, image and socket but never kills the process.\<close>

lemma hypervisor_left_running_when_poll_sleep_throws:
  "fst (runTask_admitted poll_sleep_fails_env ''alice'' ''echo ok'' [] ''/creds/alice'' 5000
          initial_world)
     = Inr \<lparr> output_text = ''Error: spawnSync /bin/sh EAGAIN'', filesChanged = [],
              exitCode = 1, durationMs = 1200 \<rparr>
   \<and> 4242 \<in> procs
        (snd (runTask_admitted poll_sleep_fails_env ''alice'' ''echo ok'' [] ''/creds/alice'' 5000
                initial_world))
   \<and> ''tap1'' \<notin> netdevs
        (snd (runTask_admitted poll_sleep_fails_env ''alice'' ''echo ok'' [] ''/creds/alice'' 5000
                initial_world))"
  by (simp add: run_defs poll_sleep_fails_env_def good_env_def initial_world_def)



lemma serial_append:
  "serial busy (xs @ ys) \<longleftrightarrow> serial busy xs \<and> serial (busy_after busy xs) ys"
  by (induction busy xs rule: serial.induct) auto

lemma busy_after_append:
  "busy_after busy (xs @ ys) = busy_after (busy_after busy xs) ys"
  by (induction busy xs rule: busy_after.induct) auto

lemma plain_serial: "list_all plain evs \<Longrightarrow> serial busy evs \<and> busy_after busy evs = busy"
proof (induction evs)
  case Nil
  then show ?case by simp
next
  case (Cons ev evs)
  then show ?case by (cases ev) auto
qed

lemma provision_owner:
  "fst (provision e g vid addr cad ms w) = Inr vm \<Longrightarrow> groupId vm = g \<and> vmId vm = vid"
  unfolding provision_def
  by (auto dest!: and_then_fst_Inr)

lemma cleanupVM_events:
  "\<exists>evs. trace (snd (cleanupVM e vm w)) = trace w @ evs @ [Unregistered (groupId vm)]
     \<and> list_all plain evs
     \<and> activeVMs (snd (cleanupVM e vm w)) = (activeVMs w)(groupId vm := None)"
proof -
  obtain evs where "trace (snd (release_resources e vm w)) = trace w @ evs" "list_all plain evs"
    "activeVMs (snd (release_resources e vm w)) = activeVMs w"
    using release_resources_host_only [of w e vm] by (auto simp: host_only_def)
  then show ?thesis by (simp add: cleanupVM_world unregister_def log_event_def)
qed

lemma run_call_serial:
  assumes "call_group c \<notin> set busy" "dom (activeVMs w) = set busy"
  shows "\<exists>evs. trace (snd (run_call c w)) = trace w @ evs \<and> serial busy evs
           \<and> busy_after busy evs = busy \<and> dom (activeVMs (snd (run_call c w))) = set busy"
proof (cases "253 < nextVmId w")
  case True
  then show ?thesis using assms(2) by (simp add: run_call_def runTask_admitted_world)
next
  case False
  let ?e = "call_env c" and ?g = "call_group c" and ?v = "nextVmId w"
  let ?w1 = "log_event (Allocated ?g ?v) (w\<lparr>nextVmId := nextVmId w + 1\<rparr>)"
  obtain r w2 where p: "provision ?e ?g ?v (IPv4 172 16 0 (?v + 1))
      (call_authDir c) (call_mounts c) ?w1 = (r, w2)"
    by (cases "provision ?e ?g ?v (IPv4 172 16 0 (?v + 1)) (call_authDir c) (call_mounts c) ?w1")
  have "host_only ?w1 w2"
    using provision_host_only [of ?w1 ?e ?g ?v "IPv4 172 16 0 (?v + 1)"
        "call_authDir c" "call_mounts c"] p by simp
  then obtain evs2 where 2: "trace w2 = trace w @ Allocated ?g ?v # evs2"
      "list_all plain evs2" "activeVMs w2 = activeVMs w"
    by (auto simp: host_only_def log_event_def)
  have rm: "removeAll ?g busy = busy" using assms(1) by simp
  show ?thesis
  proof (cases r)
    case (Inl x)
    let ?w3 = "snd (cleanup_partial ?e ?v w2)"
    let ?w' = "log_event (Abandoned ?g ?v) ?w3"
    have w': "snd (run_call c w) = ?w'"
      using False p Inl by (simp add: run_call_def runTask_admitted_world)
    obtain evs3 where 3: "trace ?w3 = trace w2 @ evs3" "list_all plain evs3"
        "activeVMs ?w3 = activeVMs w2"
      using cleanup_partial_host_only [of w2 ?e ?v] by (auto simp: host_only_def)
    have pl: "list_all plain (evs2 @ evs3)" using 2(2) 3(2) by simp
    have tr: "trace ?w' = trace w @ (Allocated ?g ?v # (evs2 @ evs3) @ [Abandoned ?g ?v])"
      using 2(1) 3(1) by (simp add: log_event_def)
    have ser: "serial busy (Allocated ?g ?v # (evs2 @ evs3) @ [Abandoned ?g ?v])"
      using plain_serial [OF pl, of "?g # busy"] assms(1) by (simp add: serial_append)
    have ba: "busy_after busy (Allocated ?g ?v # (evs2 @ evs3) @ [Abandoned ?g ?v]) = busy"
      using plain_serial [OF pl, of "?g # busy"] rm by (simp add: busy_after_append)
    have "dom (activeVMs ?w') = set busy" using 2(3) 3(3) assms(2) by (simp add: log_event_def)
    then show ?thesis unfolding w' using tr ser ba by blast
  next
    case (Inr vm)
    have own: "groupId vm = ?g" "vmId vm = ?v"
      using provision_owner [of ?e ?g ?v "IPv4 172 16 0 (?v + 1)"
          "call_authDir c" "call_mounts c" ?w1 vm] p Inr by simp_all
    let ?w3 = "snd (execute_steps ?e vm (call_task c) (call_mounts c) (call_timeout c) (register vm w2))"
    let ?w' = "snd (cleanupVM ?e vm ?w3)"
    have w': "snd (run_call c w) = ?w'"
      using False p Inr by (simp add: run_call_def runTask_admitted_world)
    obtain evs3 where 3: "trace ?w3 = trace (register vm w2) @ evs3" "list_all plain evs3"
        "activeVMs ?w3 = activeVMs (register vm w2)"
      using execute_steps_host_only [of "register vm w2" ?e vm "call_task c" "call_mounts c" "call_timeout c"]
      by (auto simp: host_only_def)
    obtain evs4 where 4: "trace ?w' = trace ?w3 @ evs4 @ [Unregistered ?g]" "list_all plain evs4"
        "activeVMs ?w' = (activeVMs ?w3)(?g := None)"
      using cleanupVM_events [of ?e vm ?w3] own by auto
    have tr: "trace ?w' = trace w @ ((Allocated ?g ?v # evs2)
        @ (Registered ?g ?v # evs3) @ (evs4 @ [Unregistered ?g]))"
      using 2(1) 3(1) 4(1) own by (simp add: register_def log_event_def)
    have s2: "serial busy (Allocated ?g ?v # evs2)"
      "busy_after busy (Allocated ?g ?v # evs2) = ?g # busy"
      using plain_serial [OF 2(2), of "?g # busy"] assms(1) by simp_all
    have s3: "serial (?g # busy) (Registered ?g ?v # evs3)"
      "busy_after (?g # busy) (Registered ?g ?v # evs3) = ?g # busy"
      using plain_serial [OF 3(2), of "?g # busy"] by simp_all
    have s4: "serial (?g # busy) (evs4 @ [Unregistered ?g])"
      "busy_after (?g # busy) (evs4 @ [Unregistered ?g]) = busy"
      using plain_serial [OF 4(2), of "?g # busy"] rm
      by (simp_all add: serial_append busy_after_append)
    have ser: "serial busy ((Allocated ?g ?v # evs2)
        @ (Registered ?g ?v # evs3) @ (evs4 @ [Unregistered ?g]))"
      using s2 s3 s4 by (metis serial_append busy_after_append)
    have ba: "busy_after busy ((Allocated ?g ?v # evs2)
        @ (Registered ?g ?v # evs3) @ (evs4 @ [Unregistered ?g])) = busy"
      using s2 s3 s4 by (metis busy_after_append)
    have "activeVMs ?w' = (activeVMs w)(?g := None)"
      using 2(3) 3(3) 4(3) own by (simp add: register_def log_event_def)
    then have "dom (activeVMs ?w') = set busy" using assms by auto
    then show ?thesis unfolding w' using tr ser ba by blast
  qed
qed

lemma proceed_world: "sys_world (proceed c s) = snd (run_call c (sys_world s))"
  by (simp add: proceed_def split: prod.splits)

lemma killVM_serial:
  assumes "dom (activeVMs w) = set busy"
  shows "\<exists>evs. trace (killVM e g w) = trace w @ evs \<and> serial busy evs
           \<and> dom (activeVMs (killVM e g w)) = set (busy_after busy evs)"
proof (cases "activeVMs w g")
  case None
  then show ?thesis using assms by (simp add: killVM_def)
next
  case (Some vm)
  obtain evs where 1: "trace (snd (cleanupVM e vm w)) = trace w @ evs @ [Unregistered (groupId vm)]"
      "list_all plain evs" "activeVMs (snd (cleanupVM e vm w)) = (activeVMs w)(groupId vm := None)"
    using cleanupVM_events [of e vm w] by blast
  have "serial busy (evs @ [Unregistered (groupId vm)])"
    "busy_after busy (evs @ [Unregistered (groupId vm)]) = removeAll (groupId vm) busy"
    using plain_serial [OF 1(2), of busy] by (simp_all add: serial_append busy_after_append)
  moreover have "dom (activeVMs (snd (cleanupVM e vm w))) = set (removeAll (groupId vm) busy)"
    using 1(3) assms by auto
  ultimately show ?thesis using Some 1(1) by (auto simp: killVM_def)
qed

lemma sys_step_serial:
  assumes "dom (activeVMs (sys_world s)) = set busy"
  shows "\<exists>evs. trace (sys_world (sys_step t s)) = trace (sys_world s) @ evs \<and> serial busy evs
           \<and> dom (activeVMs (sys_world (sys_step t s))) = set (busy_after busy evs)"
proof (cases t)
  case (Call c)
  show ?thesis
  proof (cases "activeVMs (sys_world s) (call_group c) \<noteq> None")
    case True
    then show ?thesis using Call assms by simp
  next
    case False
    then have "call_group c \<notin> set busy" using assms by auto
    from run_call_serial [OF this assms] show ?thesis
      using Call False by (auto simp: proceed_world)
  qed
next
  case (Wake i)
  show ?thesis
  proof (cases "i < length (waiting s) \<and> activeVMs (sys_world s) (call_group (waiting s ! i)) = None")
    case False
    then show ?thesis using Wake assms by auto
  next
    case True
    then have "call_group (waiting s ! i) \<notin> set busy" using assms by auto
    from run_call_serial [OF this assms] show ?thesis
      using Wake True by (auto simp: proceed_world)
  qed
next
  case (KillVM e g)
  from killVM_serial [OF assms, of e g] show ?thesis using KillVM by simp
qed

lemma run_schedule_serial:
  assumes "dom (activeVMs (sys_world s)) = set busy"
  shows "\<exists>evs. trace (sys_world (run_schedule ts s)) = trace (sys_world s) @ evs \<and> serial busy evs
           \<and> dom (activeVMs (sys_world (run_schedule ts s))) = set (busy_after busy evs)"
  using assms
proof (induction ts arbitrary: s busy)
  case Nil
  then show ?case by simp
next
  case (Cons t ts)
  from sys_step_serial [OF Cons.prems, of t] obtain evs1 where
    1: "trace (sys_world (sys_step t s)) = trace (sys_world s) @ evs1" "serial busy evs1"
       "dom (activeVMs (sys_world (sys_step t s))) = set (busy_after busy evs1)"
    by blast
  from Cons.IH [OF 1(3)] obtain evs2 where
    2: "trace (sys_world (run_schedule ts (sys_step t s))) = trace (sys_world (sys_step t s)) @ evs2"
       "serial (busy_after busy evs1) evs2"
       "dom (activeVMs (sys_world (run_schedule ts (sys_step t s))))
          = set (busy_after (busy_after busy evs1) evs2)"
    by blast
  have "trace (sys_world (run_schedule (t # ts) s)) = trace (sys_world s) @ (evs1 @ evs2)"
    using 1(1) 2(1) by simp
  moreover have "serial busy (evs1 @ evs2)" using 1 2 by (simp add: serial_append)
  moreover have "dom (activeVMs (sys_world (run_schedule (t # ts) s)))
      = set (busy_after busy (evs1 @ evs2))"
    using 2(3) by (simp add: busy_after_append)
  ultimately show ?case by blast
qed

text \<open>
  Claim C2. Whatever the order in which the event loop runs the turns of overlapping
  runTask calls and of killVM, and whatever the host does: read along the trace with
  the owners that have an allocated sandbox which has not yet retired, every
  allocation for an owner happens while that owner has no such sandbox. So a
  second call for an owner does not begin to allocate, and with that to provision
  and boot, before the owner's earlier sandbox has been torn down and removed from
  the live map (or, if it was never registered, given up after its cleanup). The
  owners in the live map after a schedule are those the trace leaves with a sandbox.
\<close>

theorem one_sandbox_per_owner:
  assumes "dom (activeVMs (sys_world s)) = set busy"
  shows "serial busy (new_events (sys_world s) (sys_world (run_schedule ts s)))
     \<and> dom (activeVMs (sys_world (run_schedule ts s)))
         = set (busy_after busy (new_events (sys_world s) (sys_world (run_schedule ts s))))"
  using run_schedule_serial [OF assms, of ts] by auto

text \<open>A trace in which a second sandbox of one owner is allocated and provisioned
  while the first has not retired is not serial, registered or not.\<close>

lemma serial_rejects_overlap:
  "\<not> serial [] [Allocated ''alice'' 1, Ev (TuntapAdd ''tap1'') True,
                  Allocated ''alice'' 2, Ev (TuntapAdd ''tap2'') True,
                  Registered ''alice'' 1, Registered ''alice'' 2]"
  by simp

lemma show_nat_2: "show_nat 2 = ''2''" "show_nat (Suc (Suc 0)) = ''2''"
  by code_simp+

text \<open>A call for an owner whose sandbox is in the live map suspends: it allocates
  nothing and leaves the world as it is.\<close>

lemma call_for_live_owner_waits:
  "activeVMs (sys_world s) (call_group c) = Some vm \<Longrightarrow>
   sys_step (Call c) s = s\<lparr> waiting := waiting s @ [c] \<rparr>"
  by simp

text \<open>A call for \<^verbatim>\<open>alice\<close> while a sandbox of \<^verbatim>\<open>alice\<close> is live: it waits, still
  waits when it wakes, and proceeds at the first wake after the sandbox has been
  killed and removed from the live map.\<close>

lemma waiting_call_waits:
  "waiting (run_schedule [Call sample_call, Wake 0] alice_live_system) = [sample_call]
   \<and> settled (run_schedule [Call sample_call, Wake 0] alice_live_system) = []
   \<and> new_events (sys_world alice_live_system)
        (sys_world (run_schedule [Call sample_call, Wake 0] alice_live_system)) = []"
  by (simp add: alice_live_system_def initial_world_def sample_call_def new_events_def)

lemma waiting_call_proceeds_after_kill:
  "waiting (run_schedule [Call sample_call, Wake 0, KillVM good_env ''alice'', Wake 0]
              alice_live_system) = []
   \<and> settled (run_schedule [Call sample_call, Wake 0, KillVM good_env ''alice'', Wake 0]
                alice_live_system)
       = [Inr \<lparr> output_text = ''ok'', filesChanged = [], exitCode = 0, durationMs = 1200 \<rparr>]
   \<and> filter (\<lambda>ev. \<not> plain ev)
        (new_events (sys_world alice_live_system)
          (sys_world (run_schedule [Call sample_call, Wake 0, KillVM good_env ''alice'', Wake 0]
                        alice_live_system)))
       = [Unregistered ''alice'', Allocated ''alice'' 2, Registered ''alice'' 2,
          Unregistered ''alice'']"
  by (simp add: alice_live_system_def initial_world_def sample_call_def sample_vm_def
      new_events_def killVM_def proceed_def run_call_def run_defs good_env_def show_nat_2)

theorem one_sandbox_per_owner_witness:
  "dom (activeVMs (sys_world alice_live_system)) = set [''alice'']
   \<and> serial [''alice'']
        (new_events (sys_world alice_live_system)
          (sys_world (run_schedule [Call sample_call, Wake 0, KillVM good_env ''alice'', Wake 0]
                        alice_live_system)))
   \<and> waiting (run_schedule [Call sample_call, Wake 0] alice_live_system) = [sample_call]
   \<and> waiting (run_schedule [Call sample_call, Wake 0, KillVM good_env ''alice'', Wake 0]
                alice_live_system) = []"
proof -
  have h: "dom (activeVMs (sys_world alice_live_system)) = set [''alice'']"
    by (simp add: alice_live_system_def initial_world_def)
  show ?thesis
    using one_sandbox_per_owner [OF h,
        of "[Call sample_call, Wake 0, KillVM good_env ''alice'', Wake 0]"]
      h waiting_call_waits waiting_call_proceeds_after_kill
    by (simp del: run_schedule.simps sys_step.simps)
qed

end
